theory Spec2Isabelle
  imports Main
begin

section \<open>Data model of \<open>lib/git-diff-view.js\<close>\<close>

text \<open>
  \<open>GitDiffView\<close> decorates the gutter of one text editor with the hunks of the
  file's diff and moves the cursor between hunks. JavaScript numbers that hold
  line numbers and counts are modelled as \<open>int\<close>; \<open>null\<close>/\<open>undefined\<close> is
  \<open>None\<close>.
\<close>

type_synonym point = "int \<times> int"

text \<open>A hunk object of a file patch, read through its three getters.\<close>

record hunk =
  getNewStartRow :: int
  getOldRowCount :: int
  getNewRowCount :: int

text \<open>An entry of \<open>this.diffs\<close>: \<open>{newStart, oldLines, newLines}\<close>.\<close>

record diff =
  newStart :: int
  oldLines :: int
  newLines :: int

text \<open>
  The editor's marker objects live in a store; a marker handle is its index.
  \<open>markBufferRange\<close> allocates at the end, \<open>decorateMarker\<close> attaches a
  \<open>{type, class}\<close> decoration, \<open>marker.destroy()\<close> sets the flag. The store
  records the range as it was requested.
\<close>

record marker =
  markerStart :: point
  markerEnd :: point
  invalidate :: string
  decorations :: "(string \<times> string) list"
  markerDestroyed :: bool

record editor =
  isDestroyed :: bool
  getPath :: "string option"
  isModified :: bool
  getText :: string
  getCursorBufferPosition :: point
  firstCharacterColumn :: "int \<Rightarrow> int"
  markerStore :: "marker list"

record repository =
  isLoading :: bool
  isPresent :: bool

text \<open>
  A call \<open>repository.getFilePatchForPath(relativePath, options)\<close>; \<open>options\<close>
  is \<open>{content, context}\<close> or \<open>{context}\<close>.
\<close>

datatype fetch_request = FetchRequest string "string option" int

text \<open>
  The view: the fields of \<open>this\<close>, the collaborators it reaches
  (\<open>this.editor\<close>, the value of \<open>this.getActiveRepository()\<close>,
  \<open>atom.project.relativizePath\<close>), and the part of the event loop it uses:
  the immediates still queued by \<open>setImmediate\<close>, the next handle
  \<open>setImmediate\<close> returns, and the calls of \<open>getFilePatchForPath\<close> whose
  promise has not resolved yet.
\<close>

record view =
  editor :: editor
  activeRepository :: "repository option"
  relativizePath :: "string \<Rightarrow> string"
  subscriptions :: bool
  markers :: "nat list"
  diffs :: "diff list option"
  immediateId :: "nat option"
  immediateQueue :: "nat list"
  nextImmediate :: nat
  pendingFetches :: "fetch_request list"

section \<open>Editor collaborator\<close>

definition markBufferRange :: "point \<Rightarrow> point \<Rightarrow> string \<Rightarrow> editor \<Rightarrow> nat \<times> editor" where
  "markBufferRange p q policy e =
     (length (markerStore e),
      e\<lparr>markerStore := markerStore e @
           [\<lparr>markerStart = p, markerEnd = q, invalidate = policy,
             decorations = [], markerDestroyed = False\<rparr>]\<rparr>)"

definition decorateMarker :: "nat \<Rightarrow> string \<times> string \<Rightarrow> editor \<Rightarrow> editor" where
  "decorateMarker m d e =
     (if m < length (markerStore e)
      then e\<lparr>markerStore := (markerStore e)
             [m := (markerStore e ! m)\<lparr>decorations := decorations (markerStore e ! m) @ [d]\<rparr>]\<rparr>
      else e)"

definition destroyMarker :: "nat \<Rightarrow> editor \<Rightarrow> editor" where
  "destroyMarker m e =
     (if m < length (markerStore e)
      then e\<lparr>markerStore := (markerStore e)[m := (markerStore e ! m)\<lparr>markerDestroyed := True\<rparr>]\<rparr>
      else e)"

text \<open>
  \<open>setCursorBufferPosition([row, 0])\<close> followed by
  \<open>moveToFirstCharacterOfLine()\<close>: the column is the editor's business.
\<close>

definition setCursorToLine :: "int \<Rightarrow> editor \<Rightarrow> editor" where
  "setCursorToLine row e = e\<lparr>getCursorBufferPosition := (row, firstCharacterColumn e row)\<rparr>"

section \<open>Navigation\<close>

definition moveToLineNumber :: "int option \<Rightarrow> view \<Rightarrow> view" where
  "moveToLineNumber lineNumber v =
     (case lineNumber of
        None \<Rightarrow> v
      | Some n \<Rightarrow> if n \<ge> 0 then v\<lparr>editor := setCursorToLine n (editor v)\<rparr> else v)"

text \<open>One round of the loop of \<open>moveToNextDiff\<close> over
  \<open>(nextDiffLineNumber, firstDiffLineNumber)\<close>.\<close>

definition nextDiffStep :: "int \<Rightarrow> diff \<Rightarrow> int option \<times> int option \<Rightarrow> int option \<times> int option" where
  "nextDiffStep cursorLineNumber d acc =
     (let nextDiffLineNumber = fst acc;
          firstDiffLineNumber = snd acc;
          nextDiffLineNumber =
            (if newStart d > cursorLineNumber
             then Some (min (newStart d - 1)
                    (case nextDiffLineNumber of None \<Rightarrow> newStart d - 1 | Some n \<Rightarrow> n))
             else nextDiffLineNumber);
          firstDiffLineNumber =
            Some (min (newStart d - 1)
              (case firstDiffLineNumber of None \<Rightarrow> newStart d - 1 | Some f \<Rightarrow> f))
      in (nextDiffLineNumber, firstDiffLineNumber))"

definition moveToNextDiff :: "view \<Rightarrow> view" where
  "moveToNextDiff v =
     (case diffs v of
        None \<Rightarrow> v
      | Some ds \<Rightarrow>
          (let cursorLineNumber = fst (getCursorBufferPosition (editor v)) + 1;
               acc = fold (nextDiffStep cursorLineNumber) ds (None, None);
               nextDiffLineNumber = (case fst acc of None \<Rightarrow> snd acc | Some n \<Rightarrow> Some n)
           in moveToLineNumber nextDiffLineNumber v))"

text \<open>One round of the loop of \<open>moveToPreviousDiff\<close> over
  \<open>(previousDiffLineNumber, lastDiffLineNumber)\<close>, both starting at \<open>-1\<close>.\<close>

definition previousDiffStep :: "int \<Rightarrow> diff \<Rightarrow> int \<times> int \<Rightarrow> int \<times> int" where
  "previousDiffStep cursorLineNumber d acc =
     (let previousDiffLineNumber = fst acc;
          lastDiffLineNumber = snd acc;
          previousDiffLineNumber =
            (if newStart d < cursorLineNumber
             then max (newStart d - 1) previousDiffLineNumber
             else previousDiffLineNumber);
          lastDiffLineNumber = max (newStart d - 1) lastDiffLineNumber
      in (previousDiffLineNumber, lastDiffLineNumber))"

definition moveToPreviousDiff :: "view \<Rightarrow> view" where
  "moveToPreviousDiff v =
     (case diffs v of
        None \<Rightarrow> v
      | Some ds \<Rightarrow>
          (let cursorLineNumber = fst (getCursorBufferPosition (editor v)) + 1;
               acc = fold (previousDiffStep cursorLineNumber) ds (- 1, - 1);
               previousDiffLineNumber = (if fst acc = - 1 then snd acc else fst acc)
           in moveToLineNumber (Some previousDiffLineNumber) v))"

section \<open>Decorations\<close>

definition markRange :: "int \<Rightarrow> int \<Rightarrow> string \<Rightarrow> view \<Rightarrow> view" where
  "markRange startRow endRow klass v =
     (let r = markBufferRange (startRow, 0) (endRow, 0) ''never'' (editor v);
          marker = fst r;
          e = decorateMarker marker (''line-number'', klass) (snd r)
      in v\<lparr>editor := e, markers := markers v @ [marker]\<rparr>)"

definition removeDecorations :: "view \<Rightarrow> view" where
  "removeDecorations v = v\<lparr>editor := fold destroyMarker (markers v) (editor v), markers := []\<rparr>"

text \<open>
  The body of the \<open>forEach\<close> of \<open>addDecorations\<close>: the rows and the class
  it hands to \<open>markRange\<close>, and the call.
\<close>

definition decorationOf :: "diff \<Rightarrow> int \<times> int \<times> string" where
  "decorationOf d =
     (let startRow = newStart d - 1;
          endRow = newStart d + newLines d - 1
      in if oldLines d = 0 \<and> newLines d > 0 then (startRow, endRow, ''git-line-added'')
         else if newLines d = 0 \<and> oldLines d > 0 then (startRow, startRow, ''git-line-removed'')
         else (startRow, endRow, ''git-line-modified''))"

definition addDecoration :: "diff \<Rightarrow> view \<Rightarrow> view" where
  "addDecoration d v =
     (case decorationOf d of (startRow, endRow, klass) \<Rightarrow> markRange startRow endRow klass v)"

definition addDecorations :: "diff list \<Rightarrow> view \<Rightarrow> view" where
  "addDecorations ds v = fold addDecoration ds v"

section \<open>Scheduling and recomputation\<close>

text \<open>\<open>clearImmediate\<close> of a handle that is not queued, or of \<open>undefined\<close>, does nothing.\<close>

definition cancelUpdate :: "view \<Rightarrow> view" where
  "cancelUpdate v =
     (case immediateId v of
        None \<Rightarrow> v
      | Some h \<Rightarrow> v\<lparr>immediateQueue := removeAll h (immediateQueue v)\<rparr>)"

definition scheduleUpdate :: "view \<Rightarrow> view" where
  "scheduleUpdate v =
     (let v1 = cancelUpdate v;
          h = nextImmediate v1
      in v1\<lparr>immediateId := Some h,
            immediateQueue := immediateQueue v1 @ [h],
            nextImmediate := Suc h\<rparr>)"

text \<open>\<open>!path\<close>: a missing path and the empty string are falsy.\<close>

definition falsyPath :: "string option \<Rightarrow> bool" where
  "falsyPath p = (case p of None \<Rightarrow> True | Some s \<Rightarrow> s = [])"

definition preconditionFails :: "view \<Rightarrow> bool" where
  "preconditionFails v =
     (isDestroyed (editor v) \<or> falsyPath (getPath (editor v)) \<or>
      (case activeRepository v of
         None \<Rightarrow> True
       | Some repo \<Rightarrow> isLoading repo \<or> \<not> isPresent repo))"

text \<open>
  \<open>updateDiffs\<close> up to its \<open>await\<close>: either it returns after
  \<open>removeDecorations\<close>, or it has called \<open>getFilePatchForPath\<close> and waits.
\<close>

definition updateDiffs :: "view \<Rightarrow> view" where
  "updateDiffs v =
     (if preconditionFails v then removeDecorations v
      else
        (let relativePath = relativizePath v (the (getPath (editor v)));
             options = (if isModified (editor v) then Some (getText (editor v)) else None)
         in v\<lparr>pendingFetches := pendingFetches v @ [FetchRequest relativePath options 0]\<rparr>))"

text \<open>\<open>updateDiffs\<close> from the point where the promise has resolved to \<open>filePatch\<close>.\<close>

definition toDiff :: "hunk \<Rightarrow> diff" where
  "toDiff h = \<lparr>newStart = getNewStartRow h, oldLines = getOldRowCount h, newLines = getNewRowCount h\<rparr>"

definition updateDiffsResumed :: "hunk list option \<Rightarrow> view \<Rightarrow> view" where
  "updateDiffsResumed filePatch v =
     (let v1 = removeDecorations v
      in case filePatch of
           None \<Rightarrow> v1
         | Some hunks \<Rightarrow>
             (let v2 = v1\<lparr>diffs := Some (map toDiff hunks)\<rparr>
              in addDecorations (the (diffs v2)) v2))"

section \<open>Lifecycle and events\<close>

text \<open>The handler registered with \<open>onDidDestroy\<close>.\<close>

definition onDidDestroy :: "view \<Rightarrow> view" where
  "onDidDestroy v = (removeDecorations (cancelUpdate v))\<lparr>subscriptions := False\<rparr>"

text \<open>
  The constructor, for an editor and the repository \<open>getActiveRepository\<close>
  returns; the gutter icon class it also sets is not part of this model.
\<close>

definition constructor :: "editor \<Rightarrow> repository option \<Rightarrow> (string \<Rightarrow> string) \<Rightarrow> view" where
  "constructor e repo rel =
     scheduleUpdate
       \<lparr>editor = e, activeRepository = repo, relativizePath = rel, subscriptions = True,
        markers = [], diffs = None, immediateId = None, immediateQueue = [],
        nextImmediate = 0, pendingFetches = []\<rparr>"

text \<open>
  What can happen to a view: the editor's notifications (delivered while the
  subscriptions are live), the two commands, an explicit \<open>scheduleUpdate()\<close>,
  the event loop running the oldest queued immediate, the promise of the
  \<open>k\<close>-th pending fetch resolving, and the active repository changing.
\<close>

datatype event =
    DidStopChanging string bool
  | DidChangePath "string option"
  | DidDestroy
  | MoveToNextDiff
  | MoveToPreviousDiff
  | ScheduleUpdate
  | RunImmediate
  | FetchResolved nat "hunk list option"
  | RepositoryChanged "repository option"

fun step :: "event \<Rightarrow> view \<Rightarrow> view" where
  "step (DidStopChanging t m) v =
     (if isDestroyed (editor v) then v
      else let v1 = v\<lparr>editor := (editor v)\<lparr>getText := t, isModified := m\<rparr>\<rparr>
           in if subscriptions v1 then updateDiffs v1 else v1)"
| "step (DidChangePath p) v =
     (if isDestroyed (editor v) then v
      else let v1 = v\<lparr>editor := (editor v)\<lparr>getPath := p\<rparr>\<rparr>
           in if subscriptions v1 then updateDiffs v1 else v1)"
| "step DidDestroy v =
     (if isDestroyed (editor v) then v
      else let v1 = v\<lparr>editor := (editor v)\<lparr>isDestroyed := True\<rparr>\<rparr>
           in if subscriptions v1 then onDidDestroy v1 else v1)"
| "step MoveToNextDiff v = (if subscriptions v then moveToNextDiff v else v)"
| "step MoveToPreviousDiff v = (if subscriptions v then moveToPreviousDiff v else v)"
| "step ScheduleUpdate v = scheduleUpdate v"
| "step RunImmediate v =
     (case immediateQueue v of
        [] \<Rightarrow> v
      | h # hs \<Rightarrow> updateDiffs (v\<lparr>immediateQueue := hs\<rparr>))"
| "step (FetchResolved k filePatch) v =
     (if k < length (pendingFetches v)
      then updateDiffsResumed filePatch
             (v\<lparr>pendingFetches := take k (pendingFetches v) @ drop (Suc k) (pendingFetches v)\<rparr>)
      else v)"
| "step (RepositoryChanged repo) v = v\<lparr>activeRepository := repo\<rparr>"

definition run :: "event list \<Rightarrow> view \<Rightarrow> view" where
  "run evs v = fold step evs v"

section \<open>Notions used in the statements\<close>

text \<open>The marker object that \<open>markRange\<close> leaves in the editor's store.\<close>

definition lineMarker :: "int \<Rightarrow> int \<Rightarrow> string \<Rightarrow> marker" where
  "lineMarker startRow endRow klass =
     \<lparr>markerStart = (startRow, 0), markerEnd = (endRow, 0), invalidate = ''never'',
      decorations = [(''line-number'', klass)], markerDestroyed = False\<rparr>"

text \<open>The marker \<open>addDecorations\<close> creates for one entry of \<open>this.diffs\<close>.\<close>

definition markerOf :: "diff \<Rightarrow> marker" where
  "markerOf d = (case decorationOf d of (s, e, k) \<Rightarrow> lineMarker s e k)"

text \<open>
  The rows a marker's range spans, from the row of its start point to the row
  of its end point; a range that is not empty and ends at column 0 holds
  nothing of the row of its end point, which is then not one of them.
\<close>

definition markerRows :: "marker \<Rightarrow> int set" where
  "markerRows m =
     {fst (markerStart m) ..
      (if markerEnd m \<noteq> markerStart m \<and> snd (markerEnd m) = 0
       then fst (markerEnd m) - 1 else fst (markerEnd m))}"

text \<open>The store after \<open>destroy()\<close> has been called on the markers \<open>ms\<close>.\<close>

definition destroyAll :: "nat list \<Rightarrow> marker list \<Rightarrow> marker list" where
  "destroyAll ms store =
     map (\<lambda>i. if i \<in> set ms then (store ! i)\<lparr>markerDestroyed := True\<rparr> else store ! i)
       [0 ..< length store]"

text \<open>
  The 0-based start rows of a hunk sequence, those strictly after a cursor
  row and those strictly before it.
\<close>

definition startRows :: "diff list \<Rightarrow> int list" where
  "startRows ds = map (\<lambda>d. newStart d - 1) ds"

definition rowsAfter :: "int \<Rightarrow> diff list \<Rightarrow> int list" where
  "rowsAfter row ds = filter (\<lambda>r. row < r) (startRows ds)"

definition rowsBefore :: "int \<Rightarrow> diff list \<Rightarrow> int list" where
  "rowsBefore row ds = filter (\<lambda>r. r < row) (startRows ds)"

text \<open>
  The targets as the specification words them: the least start row after the
  cursor row, or the least of all when there is none; the greatest start row
  before the cursor row, or the greatest of all when there is none.
\<close>

definition nextTarget :: "int \<Rightarrow> diff list \<Rightarrow> int" where
  "nextTarget row ds =
     (if rowsAfter row ds \<noteq> [] then Min (set (rowsAfter row ds)) else Min (set (startRows ds)))"

definition previousTarget :: "int \<Rightarrow> diff list \<Rightarrow> int" where
  "previousTarget row ds =
     (if rowsBefore row ds \<noteq> [] then Max (set (rowsBefore row ds)) else Max (set (startRows ds)))"

text \<open>
  The values the two navigation loops accumulate: the least row seen, if any,
  and the greatest row seen, from \<open>-1\<close>.
\<close>

definition minOf :: "int list \<Rightarrow> int option" where
  "minOf rs = (if rs = [] then None else Some (Min (set rs)))"

definition maxFrom :: "int list \<Rightarrow> int" where
  "maxFrom rs = Max (insert (- 1) (set rs))"

text \<open>
  A concrete view: an open editor on a tracked file with the cursor on row 25,
  and a hunk sequence whose 0-based start rows are 3, 10 and 20.
\<close>

definition exampleEditor :: editor where
  "exampleEditor =
     \<lparr>isDestroyed = False, getPath = Some ''/repo/a.txt'', isModified = False, getText = [],
      getCursorBufferPosition = (25, 0), firstCharacterColumn = (\<lambda>row. 0), markerStore = []\<rparr>"

definition exampleView :: view where
  "exampleView = constructor exampleEditor (Some \<lparr>isLoading = False, isPresent = True\<rparr>) (\<lambda>p. p)"

definition exampleDiffs :: "diff list" where
  "exampleDiffs =
     [\<lparr>newStart = 4, oldLines = 0, newLines = 2\<rparr>,
      \<lparr>newStart = 11, oldLines = 1, newLines = 0\<rparr>,
      \<lparr>newStart = 21, oldLines = 3, newLines = 1\<rparr>]"

text \<open>
  Two hunk sequences that begin with a deletion at the top of the file, whose
  zero-context hunk has new start line 0.
\<close>

definition zeroStartDiffs :: "diff list" where
  "zeroStartDiffs =
     [\<lparr>newStart = 0, oldLines = 2, newLines = 0\<rparr>, \<lparr>newStart = 11, oldLines = 1, newLines = 0\<rparr>]"

definition topDeletionDiffs :: "diff list" where
  "topDeletionDiffs =
     [\<lparr>newStart = 0, oldLines = 3, newLines = 0\<rparr>, \<lparr>newStart = 5, oldLines = 0, newLines = 1\<rparr>]"

text \<open>
  Every handle in \<open>this.markers\<close> refers to a marker of the editor's store.
\<close>

definition trackedValid :: "view \<Rightarrow> bool" where
  "trackedValid v = list_all (\<lambda>m. m < length (markerStore (editor v))) (markers v)"

text \<open>The example view after a patch of two hunks has been applied to it.\<close>

definition decoratedView :: view where
  "decoratedView = updateDiffsResumed
     (Some [\<lparr>getNewStartRow = 4, getOldRowCount = 0, getNewRowCount = 2\<rparr>,
            \<lparr>getNewStartRow = 11, getOldRowCount = 1, getNewRowCount = 0\<rparr>]) exampleView"

text \<open>
  The scheduler's invariant: a queued immediate is the one \<open>this.immediateId\<close>
  names, it is queued once, and its handle has been issued already.
\<close>

definition schedInv :: "view \<Rightarrow> bool" where
  "schedInv v =
     (distinct (immediateQueue v) \<and>
      list_all (\<lambda>h. immediateId v = Some h \<and> h < nextImmediate v) (immediateQueue v))"

text \<open>
  Two patches of one hunk each, and the decorated view with two fetches in
  flight: recomputation A started, a second one scheduled and started as B.
\<close>

definition hunkA :: hunk where
  "hunkA = \<lparr>getNewStartRow = 5, getOldRowCount = 0, getNewRowCount = 3\<rparr>"

definition hunkB :: hunk where
  "hunkB = \<lparr>getNewStartRow = 9, getOldRowCount = 2, getNewRowCount = 0\<rparr>"

definition twoPending :: view where
  "twoPending = run [RunImmediate, ScheduleUpdate, RunImmediate] decoratedView"

text \<open>The example view after its content settled and an update was scheduled.\<close>

definition scheduledView :: view where
  "scheduledView = run [DidStopChanging ''x'' True, ScheduleUpdate] exampleView"

lemmas example_defs = exampleView_def exampleEditor_def exampleDiffs_def constructor_def
  scheduleUpdate_def cancelUpdate_def

section \<open>What the marker operations do to the view\<close>

lemma markRange_eq:
  "markRange s e k v =
     v\<lparr>editor := (editor v)\<lparr>markerStore := markerStore (editor v) @ [lineMarker s e k]\<rparr>,
       markers := markers v @ [length (markerStore (editor v))]\<rparr>"
  by (simp add: markRange_def markBufferRange_def decorateMarker_def lineMarker_def Let_def)

lemma addDecoration_eq:
  "addDecoration d v =
     v\<lparr>editor := (editor v)\<lparr>markerStore := markerStore (editor v) @ [markerOf d]\<rparr>,
       markers := markers v @ [length (markerStore (editor v))]\<rparr>"
  by (simp add: addDecoration_def markerOf_def markRange_eq split: prod.splits)

lemma addDecorations_eq:
  "fold addDecoration ds v =
     v\<lparr>editor := (editor v)\<lparr>markerStore := markerStore (editor v) @ map markerOf ds\<rparr>,
       markers := markers v @ [length (markerStore (editor v)) ..< length (markerStore (editor v)) + length ds]\<rparr>"
proof (induction ds arbitrary: v)
  case Nil
  show ?case by simp
next
  case (Cons d ds)
  have "fold addDecoration (d # ds) v = fold addDecoration ds (addDecoration d v)"
    by simp
  also have "\<dots> = (addDecoration d v)\<lparr>editor := (editor (addDecoration d v))
        \<lparr>markerStore := markerStore (editor (addDecoration d v)) @ map markerOf ds\<rparr>,
       markers := markers (addDecoration d v) @
         [length (markerStore (editor (addDecoration d v))) ..<
          length (markerStore (editor (addDecoration d v))) + length ds]\<rparr>"
    by (rule Cons.IH)
  also have "\<dots> = v\<lparr>editor := (editor v)\<lparr>markerStore := markerStore (editor v) @ map markerOf (d # ds)\<rparr>,
       markers := markers v @ [length (markerStore (editor v)) ..< length (markerStore (editor v)) + length (d # ds)]\<rparr>"
    by (simp add: addDecoration_eq upt_conv_Cons del: upt_Suc)
  finally show ?case .
qed

lemma destroyAll_length: "length (destroyAll ms store) = length store"
  by (simp add: destroyAll_def)

lemma destroyAll_nth:
  "i < length store \<Longrightarrow>
   destroyAll ms store ! i = (if i \<in> set ms then (store ! i)\<lparr>markerDestroyed := True\<rparr> else store ! i)"
  by (simp add: destroyAll_def)

lemma destroyAll_Nil: "destroyAll [] store = store"
  by (simp add: destroyAll_def map_nth)

lemma destroyAll_Cons:
  "destroyAll (m # ms) store =
     destroyAll ms (if m < length store then store[m := (store ! m)\<lparr>markerDestroyed := True\<rparr>] else store)"
  by (rule nth_equalityI) (auto simp: destroyAll_def nth_list_update)

lemma fold_destroyMarker:
  "fold destroyMarker ms e = e\<lparr>markerStore := destroyAll ms (markerStore e)\<rparr>"
proof (induction ms arbitrary: e)
  case Nil
  show ?case by (simp add: destroyAll_Nil)
next
  case (Cons m ms)
  have "fold destroyMarker (m # ms) e = fold destroyMarker ms (destroyMarker m e)"
    by simp
  also have "\<dots> = (destroyMarker m e)\<lparr>markerStore := destroyAll ms (markerStore (destroyMarker m e))\<rparr>"
    by (rule Cons.IH)
  also have "\<dots> = e\<lparr>markerStore := destroyAll (m # ms) (markerStore e)\<rparr>"
    by (simp add: destroyMarker_def destroyAll_Cons)
  finally show ?case .
qed

lemma removeDecorations_eq:
  "removeDecorations v =
     v\<lparr>editor := (editor v)\<lparr>markerStore := destroyAll (markers v) (markerStore (editor v))\<rparr>,
       markers := []\<rparr>"
  by (simp add: removeDecorations_def fold_destroyMarker)

lemma markerOf_rows:
  "markerStart (markerOf d) = (newStart d - 1, 0) \<and>
   markerEnd (markerOf d) = (newStart d - 1 + newLines d, 0) \<and>
   (0 < newLines d \<longrightarrow> markerRows (markerOf d) = {newStart d - 1 .. newStart d - 1 + newLines d - 1}) \<and>
   (newLines d = 0 \<longrightarrow> markerRows (markerOf d) = {newStart d - 1})"
  by (simp add: markerOf_def decorationOf_def lineMarker_def markerRows_def Let_def)

lemma markerOf_class:
  "\<not> markerDestroyed (markerOf d) \<and>
   (oldLines d = 0 \<and> 0 < newLines d \<longrightarrow>
      decorations (markerOf d) = [(''line-number'', ''git-line-added'')]) \<and>
   (newLines d = 0 \<and> 0 < oldLines d \<longrightarrow>
      decorations (markerOf d) = [(''line-number'', ''git-line-removed'')]) \<and>
   (0 < oldLines d \<and> 0 < newLines d \<longrightarrow>
      decorations (markerOf d) = [(''line-number'', ''git-line-modified'')])"
  by (simp add: markerOf_def decorationOf_def lineMarker_def Let_def)


section \<open>The navigation loops compute a minimum and a maximum\<close>

lemma minOf_snoc:
  "minOf (rs @ [r]) = Some (min r (case minOf rs of None \<Rightarrow> r | Some n \<Rightarrow> n))"
  by (cases "rs = []") (simp_all add: minOf_def)

lemma fold_nextDiffStep:
  "fold (nextDiffStep (row + 1)) ds (None, None) = (minOf (rowsAfter row ds), minOf (startRows ds))"
proof (induction ds rule: rev_induct)
  case Nil
  show ?case by (simp add: minOf_def rowsAfter_def startRows_def)
next
  case (snoc d ds)
  have after: "rowsAfter row (ds @ [d]) =
      (if row + 1 < newStart d then rowsAfter row ds @ [newStart d - 1] else rowsAfter row ds)"
    by (simp add: rowsAfter_def startRows_def)
  have all: "startRows (ds @ [d]) = startRows ds @ [newStart d - 1]"
    by (simp add: startRows_def)
  have "fold (nextDiffStep (row + 1)) (ds @ [d]) (None, None) =
      nextDiffStep (row + 1) d (fold (nextDiffStep (row + 1)) ds (None, None))"
    by simp
  also have "\<dots> = nextDiffStep (row + 1) d (minOf (rowsAfter row ds), minOf (startRows ds))"
    by (simp only: snoc.IH)
  also have "\<dots> = (minOf (rowsAfter row (ds @ [d])), minOf (startRows (ds @ [d])))"
    by (simp add: nextDiffStep_def after all minOf_snoc)
  finally show ?case .
qed

lemma maxFrom_snoc: "maxFrom (rs @ [r]) = max r (maxFrom rs)"
proof -
  have "insert (- 1) (set (rs @ [r])) = insert r (insert (- 1) (set rs))"
    by auto
  then show ?thesis
    by (simp add: maxFrom_def)
qed

lemma fold_previousDiffStep:
  "fold (previousDiffStep (row + 1)) ds (- 1, - 1) = (maxFrom (rowsBefore row ds), maxFrom (startRows ds))"
proof (induction ds rule: rev_induct)
  case Nil
  show ?case by (simp add: maxFrom_def rowsBefore_def startRows_def)
next
  case (snoc d ds)
  have before: "rowsBefore row (ds @ [d]) =
      (if newStart d < row + 1 then rowsBefore row ds @ [newStart d - 1] else rowsBefore row ds)"
    by (simp add: rowsBefore_def startRows_def)
  have all: "startRows (ds @ [d]) = startRows ds @ [newStart d - 1]"
    by (simp add: startRows_def)
  have "fold (previousDiffStep (row + 1)) (ds @ [d]) (- 1, - 1) =
      previousDiffStep (row + 1) d (fold (previousDiffStep (row + 1)) ds (- 1, - 1))"
    by simp
  also have "\<dots> = previousDiffStep (row + 1) d (maxFrom (rowsBefore row ds), maxFrom (startRows ds))"
    by (simp only: snoc.IH)
  also have "\<dots> = (maxFrom (rowsBefore row (ds @ [d])), maxFrom (startRows (ds @ [d])))"
    by (simp add: previousDiffStep_def before all maxFrom_snoc)
  finally show ?case .
qed

lemma maxFrom_max: "rs \<noteq> [] \<Longrightarrow> maxFrom rs = max (- 1) (Max (set rs))"
  by (simp add: maxFrom_def)

lemma startRows_nonneg:
  "list_all (\<lambda>d. 1 \<le> newStart d) ds \<Longrightarrow> list_all (\<lambda>r. 0 \<le> r) (startRows ds)"
  by (fastforce simp: startRows_def list_all_iff)

lemma moveToNextDiff_noop:
  "diffs v = None \<or> diffs v = Some [] \<Longrightarrow> moveToNextDiff v = v"
  by (auto simp: moveToNextDiff_def moveToLineNumber_def)

lemma moveToPreviousDiff_noop:
  "diffs v = None \<or> diffs v = Some [] \<Longrightarrow> moveToPreviousDiff v = v"
  by (auto simp: moveToPreviousDiff_def moveToLineNumber_def)

lemma moveToNextDiff_general:
  assumes "diffs v = Some ds" and "ds \<noteq> []"
  shows "moveToNextDiff v =
     moveToLineNumber (Some (nextTarget (fst (getCursorBufferPosition (editor v))) ds)) v"
proof -
  have "startRows ds \<noteq> []"
    using assms(2) by (simp add: startRows_def)
  then show ?thesis
    by (simp add: moveToNextDiff_def assms(1) fold_nextDiffStep minOf_def nextTarget_def Let_def)
qed

lemma moveToPreviousDiff_general:
  assumes "diffs v = Some ds" and "ds \<noteq> []"
    and "rowsBefore (fst (getCursorBufferPosition (editor v))) ds = [] \<or>
         0 \<le> previousTarget (fst (getCursorBufferPosition (editor v))) ds"
  shows "moveToPreviousDiff v =
     moveToLineNumber (Some (previousTarget (fst (getCursorBufferPosition (editor v))) ds)) v"
proof -
  let ?row = "fst (getCursorBufferPosition (editor v))"
  have all: "startRows ds \<noteq> []"
    using assms(2) by (simp add: startRows_def)
  show ?thesis
  proof (cases "rowsBefore ?row ds = []")
    case True
    then have p: "maxFrom (rowsBefore ?row ds) = - 1"
      by (simp add: maxFrom_def)
    have "moveToPreviousDiff v = moveToLineNumber (Some (maxFrom (startRows ds))) v"
      by (simp add: moveToPreviousDiff_def assms(1) fold_previousDiffStep p Let_def)
    also have "\<dots> = moveToLineNumber (Some (Max (set (startRows ds)))) v"
      by (simp add: maxFrom_max [OF all] moveToLineNumber_def max_def)
    finally show ?thesis
      using True by (simp add: previousTarget_def)
  next
    case False
    with assms(3) have nn: "0 \<le> Max (set (rowsBefore ?row ds))"
      by (simp add: previousTarget_def)
    then have p: "maxFrom (rowsBefore ?row ds) = Max (set (rowsBefore ?row ds))"
      using False by (simp add: maxFrom_max max_def)
    with nn have "maxFrom (rowsBefore ?row ds) \<noteq> - 1"
      by simp
    then have "moveToPreviousDiff v = moveToLineNumber (Some (maxFrom (rowsBefore ?row ds))) v"
      by (simp add: moveToPreviousDiff_def assms(1) fold_previousDiffStep Let_def)
    then show ?thesis
      using False by (simp add: p previousTarget_def)
  qed
qed

lemma nextTarget_in: "ds \<noteq> [] \<Longrightarrow> nextTarget row ds \<in> set (startRows ds)"
proof -
  assume "ds \<noteq> []"
  then have all: "startRows ds \<noteq> []"
    by (simp add: startRows_def)
  have sub: "set (rowsAfter row ds) \<subseteq> set (startRows ds)"
    by (auto simp: rowsAfter_def)
  have "Min (set (startRows ds)) \<in> set (startRows ds)"
    using all by (intro Min_in) simp_all
  moreover have "rowsAfter row ds \<noteq> [] \<Longrightarrow> Min (set (rowsAfter row ds)) \<in> set (rowsAfter row ds)"
    by (intro Min_in) simp_all
  ultimately show ?thesis
    using sub by (auto simp: nextTarget_def)
qed

lemma previousTarget_in: "ds \<noteq> [] \<Longrightarrow> previousTarget row ds \<in> set (startRows ds)"
proof -
  assume "ds \<noteq> []"
  then have all: "startRows ds \<noteq> []"
    by (simp add: startRows_def)
  have sub: "set (rowsBefore row ds) \<subseteq> set (startRows ds)"
    by (auto simp: rowsBefore_def)
  have "Max (set (startRows ds)) \<in> set (startRows ds)"
    using all by (intro Max_in) simp_all
  moreover have "rowsBefore row ds \<noteq> [] \<Longrightarrow> Max (set (rowsBefore row ds)) \<in> set (rowsBefore row ds)"
    by (intro Max_in) simp_all
  ultimately show ?thesis
    using sub by (auto simp: previousTarget_def)
qed

lemma oneBased_targets:
  assumes "ds \<noteq> []" and "list_all (\<lambda>d. 1 \<le> newStart d) ds"
  shows "0 \<le> nextTarget row ds" and "0 \<le> previousTarget row ds"
proof -
  have "\<forall>r \<in> set (startRows ds). 0 \<le> r"
    using startRows_nonneg [OF assms(2)] by (simp add: list_all_iff)
  with nextTarget_in [OF assms(1), of row] previousTarget_in [OF assms(1), of row]
  show "0 \<le> nextTarget row ds" and "0 \<le> previousTarget row ds"
    by blast+
qed


section \<open>Decoration span and classification\<close>

text \<open>
  C1: the marker created for a hunk is the one tracked last; its range starts
  at \<open>(startRow, 0)\<close> with \<open>startRow = newStart - 1\<close> and ends at
  \<open>(newStart + newLines - 1, 0)\<close>. For an added or modified hunk
  (\<open>newLines > 0\<close>) the rows it spans are \<open>startRow\<close> through
  \<open>startRow + newLines - 1\<close>; for a pure removal (\<open>newLines = 0\<close>) it
  spans the single row \<open>startRow\<close>.
\<close>

theorem marker_range_rows:
  "markers (addDecoration d v) = markers v @ [length (markerStore (editor v))] \<and>
   markerStore (editor (addDecoration d v)) ! length (markerStore (editor v)) =
     last (markerStore (editor (addDecoration d v))) \<and>
   markerStart (last (markerStore (editor (addDecoration d v)))) = (newStart d - 1, 0) \<and>
   markerEnd (last (markerStore (editor (addDecoration d v)))) = (newStart d - 1 + newLines d, 0) \<and>
   (0 < newLines d \<longrightarrow>
      markerRows (last (markerStore (editor (addDecoration d v))))
        = {newStart d - 1 .. newStart d - 1 + newLines d - 1}) \<and>
   (newLines d = 0 \<longrightarrow>
      markerRows (last (markerStore (editor (addDecoration d v)))) = {newStart d - 1})"
  using markerOf_rows [of d] by (simp add: addDecoration_eq)

text \<open>
  The hunk \<open>{newStart: 5, oldLines: 0, newLines: 3}\<close> spans rows 4 to 6,
  \<open>{5, 2, 2}\<close> rows 4 to 5, \<open>{5, 2, 0}\<close> row 4.
\<close>

theorem marker_range_rows_witness:
  "(0::int) < 3 \<and>
   markerRows (last (markerStore (editor
       (addDecoration \<lparr>newStart = 5, oldLines = 0, newLines = 3\<rparr> exampleView)))) = {4..6} \<and>
   markerRows (last (markerStore (editor
       (addDecoration \<lparr>newStart = 5, oldLines = 2, newLines = 2\<rparr> exampleView)))) = {4..5} \<and>
   markerRows (last (markerStore (editor
       (addDecoration \<lparr>newStart = 5, oldLines = 2, newLines = 0\<rparr> exampleView)))) = {4}"
  using marker_range_rows [of "\<lparr>newStart = 5, oldLines = 0, newLines = 3\<rparr>" exampleView]
    marker_range_rows [of "\<lparr>newStart = 5, oldLines = 2, newLines = 2\<rparr>" exampleView]
    marker_range_rows [of "\<lparr>newStart = 5, oldLines = 2, newLines = 0\<rparr>" exampleView]
  by simp

text \<open>
  C2: for a hunk whose counts are line counts (not negative) and not both zero,
  the marker created for it carries the class \<open>git-line-added\<close> exactly when
  \<open>oldLines = 0\<close> and \<open>newLines > 0\<close>, \<open>git-line-removed\<close> exactly when
  \<open>newLines = 0\<close> and \<open>oldLines > 0\<close>, and \<open>git-line-modified\<close> exactly when
  both counts are positive.
\<close>

theorem marker_class_by_counts:
  assumes "0 \<le> oldLines d" and "0 \<le> newLines d" and "\<not> (oldLines d = 0 \<and> newLines d = 0)"
  shows "markers (addDecoration d v) = markers v @ [length (markerStore (editor v))] \<and>
   markerStore (editor (addDecoration d v)) ! length (markerStore (editor v)) =
     last (markerStore (editor (addDecoration d v))) \<and>
   (decorations (last (markerStore (editor (addDecoration d v)))) = [(''line-number'', ''git-line-added'')]
      \<longleftrightarrow> oldLines d = 0 \<and> 0 < newLines d) \<and>
   (decorations (last (markerStore (editor (addDecoration d v)))) = [(''line-number'', ''git-line-removed'')]
      \<longleftrightarrow> newLines d = 0 \<and> 0 < oldLines d) \<and>
   (decorations (last (markerStore (editor (addDecoration d v)))) = [(''line-number'', ''git-line-modified'')]
      \<longleftrightarrow> 0 < oldLines d \<and> 0 < newLines d)"
  using assms
  by (auto simp: addDecoration_eq markerOf_def decorationOf_def lineMarker_def Let_def)

theorem marker_class_by_counts_witness:
  "(0::int) \<le> 2 \<and> (0::int) \<le> 0 \<and> \<not> ((2::int) = 0 \<and> (0::int) = 0) \<and>
   decorations (last (markerStore (editor
       (addDecoration \<lparr>newStart = 5, oldLines = 2, newLines = 0\<rparr> exampleView)))) =
     [(''line-number'', ''git-line-removed'')]"
  using marker_class_by_counts [of "\<lparr>newStart = 5, oldLines = 2, newLines = 0\<rparr>" exampleView]
  by simp

section \<open>Navigation between hunks\<close>

text \<open>
  C3, as stated, fails when the first hunk is a deletion at the top of the
  file (new start line 0): with the cursor on row 25 no hunk starts after it,
  the least start row of all hunks is \<open>-1\<close>, and \<open>moveToLineNumber\<close> leaves
  the cursor where it is although hunks exist.
\<close>

theorem moveToNextDiff_counterexample:
  "diffs (exampleView\<lparr>diffs := Some zeroStartDiffs\<rparr>) = Some zeroStartDiffs \<and>
   getCursorBufferPosition (editor (exampleView\<lparr>diffs := Some zeroStartDiffs\<rparr>)) = (25, 0) \<and>
   rowsAfter 25 zeroStartDiffs = [] \<and>
   Min (set (startRows zeroStartDiffs)) = - 1 \<and>
   getCursorBufferPosition (editor (moveToNextDiff (exampleView\<lparr>diffs := Some zeroStartDiffs\<rparr>)))
     = (25, 0)"
  by (simp add: moveToNextDiff_def nextDiffStep_def moveToLineNumber_def zeroStartDiffs_def
      rowsAfter_def startRows_def example_defs Let_def)

text \<open>
  C3, amended: \<open>moveToNextDiff\<close> leaves the view as it is when \<open>this.diffs\<close>
  is undefined or empty; otherwise its target is the least 0-based start row
  strictly greater than the cursor row, or, when there is none, the least start
  row of all hunks; it puts the cursor on the target when the target is a row
  (not negative), which it always is when every start line is 1 or more, and
  leaves the view as it is when the target is negative.
\<close>

theorem moveToNextDiff_target:
  "(diffs v = None \<or> diffs v = Some [] \<longrightarrow> moveToNextDiff v = v) \<and>
   (\<forall>ds. diffs v = Some ds \<and> ds \<noteq> [] \<longrightarrow>
      (0 \<le> nextTarget (fst (getCursorBufferPosition (editor v))) ds \<longrightarrow>
         fst (getCursorBufferPosition (editor (moveToNextDiff v)))
           = nextTarget (fst (getCursorBufferPosition (editor v))) ds) \<and>
      (nextTarget (fst (getCursorBufferPosition (editor v))) ds < 0 \<longrightarrow> moveToNextDiff v = v) \<and>
      (list_all (\<lambda>d. 1 \<le> newStart d) ds \<longrightarrow>
         0 \<le> nextTarget (fst (getCursorBufferPosition (editor v))) ds))"
proof (intro conjI allI impI)
  assume "diffs v = None \<or> diffs v = Some []"
  then show "moveToNextDiff v = v" by (rule moveToNextDiff_noop)
next
  fix ds
  assume ds: "diffs v = Some ds \<and> ds \<noteq> []"
    and "0 \<le> nextTarget (fst (getCursorBufferPosition (editor v))) ds"
  then show "fst (getCursorBufferPosition (editor (moveToNextDiff v)))
      = nextTarget (fst (getCursorBufferPosition (editor v))) ds"
    by (simp add: moveToNextDiff_general moveToLineNumber_def setCursorToLine_def)
next
  fix ds
  assume ds: "diffs v = Some ds \<and> ds \<noteq> []"
    and "nextTarget (fst (getCursorBufferPosition (editor v))) ds < 0"
  then show "moveToNextDiff v = v"
    by (simp add: moveToNextDiff_general moveToLineNumber_def)
next
  fix ds
  assume "diffs v = Some ds \<and> ds \<noteq> []" and "list_all (\<lambda>d. 1 \<le> newStart d) ds"
  then show "0 \<le> nextTarget (fst (getCursorBufferPosition (editor v))) ds"
    by (simp add: oneBased_targets)
qed

text \<open>
  With start rows 3, 10, 20 and the cursor on row 25, the cursor moves to row 3;
  with start rows \<open>-1\<close>, 10 it stays.
\<close>

theorem moveToNextDiff_target_witness:
  "startRows exampleDiffs = [3, 10, 20] \<and>
   getCursorBufferPosition (editor (exampleView\<lparr>diffs := Some exampleDiffs\<rparr>)) = (25, 0) \<and>
   nextTarget 25 exampleDiffs = 3 \<and>
   fst (getCursorBufferPosition (editor (moveToNextDiff (exampleView\<lparr>diffs := Some exampleDiffs\<rparr>)))) = 3 \<and>
   nextTarget 25 zeroStartDiffs < 0 \<and>
   moveToNextDiff (exampleView\<lparr>diffs := Some zeroStartDiffs\<rparr>)
     = exampleView\<lparr>diffs := Some zeroStartDiffs\<rparr>"
proof -
  have a: "nextTarget 25 exampleDiffs = 3" and b: "nextTarget 25 zeroStartDiffs = - 1"
    by (simp_all add: nextTarget_def rowsAfter_def startRows_def exampleDiffs_def zeroStartDiffs_def)
  have c: "fst (getCursorBufferPosition (editor exampleView)) = 25"
    by (simp add: example_defs)
  have d: "exampleDiffs \<noteq> []" "zeroStartDiffs \<noteq> []"
    by (simp_all add: exampleDiffs_def zeroStartDiffs_def)
  from moveToNextDiff_target [of "exampleView\<lparr>diffs := Some exampleDiffs\<rparr>"]
  have "fst (getCursorBufferPosition (editor (moveToNextDiff (exampleView\<lparr>diffs := Some exampleDiffs\<rparr>)))) = 3"
    by (simp add: a c d)
  moreover from moveToNextDiff_target [of "exampleView\<lparr>diffs := Some zeroStartDiffs\<rparr>"]
  have "moveToNextDiff (exampleView\<lparr>diffs := Some zeroStartDiffs\<rparr>)
     = exampleView\<lparr>diffs := Some zeroStartDiffs\<rparr>"
    by (simp add: b c d)
  moreover have "startRows exampleDiffs = [3, 10, 20]"
    by (simp add: startRows_def exampleDiffs_def)
  moreover have "getCursorBufferPosition (editor exampleView) = (25, 0)"
    by (simp add: example_defs)
  ultimately show ?thesis
    by (simp add: a b)
qed

text \<open>
  C4, as stated, fails when the only hunk before the cursor is a deletion at
  the top of the file (new start line 0): with start rows \<open>-1\<close>, 4 and the
  cursor on row 2, the greatest start row before the cursor is \<open>-1\<close>, and
  the cursor goes forward to row 4.
\<close>

theorem moveToPreviousDiff_counterexample:
  "getCursorBufferPosition (editor
     (exampleView\<lparr>editor := (editor exampleView)\<lparr>getCursorBufferPosition := (2, 0)\<rparr>,
                  diffs := Some topDeletionDiffs\<rparr>)) = (2, 0) \<and>
   startRows topDeletionDiffs = [- 1, 4] \<and>
   rowsBefore 2 topDeletionDiffs = [- 1] \<and>
   Max (set (rowsBefore 2 topDeletionDiffs)) = - 1 \<and>
   getCursorBufferPosition (editor (moveToPreviousDiff
     (exampleView\<lparr>editor := (editor exampleView)\<lparr>getCursorBufferPosition := (2, 0)\<rparr>,
                  diffs := Some topDeletionDiffs\<rparr>))) = (4, 0)"
  by (simp add: moveToPreviousDiff_def previousDiffStep_def moveToLineNumber_def setCursorToLine_def
      topDeletionDiffs_def rowsBefore_def startRows_def example_defs Let_def)

text \<open>
  C4, amended: \<open>moveToPreviousDiff\<close> leaves the view as it is when
  \<open>this.diffs\<close> is undefined or empty; otherwise its target is the greatest
  0-based start row strictly less than the cursor row, or, when there is none,
  the greatest start row of all hunks; it puts the cursor on the target when the
  target is a row (not negative), which it always is when every start line is
  1 or more. Nothing is said of a negative target.
\<close>

theorem moveToPreviousDiff_target:
  "(diffs v = None \<or> diffs v = Some [] \<longrightarrow> moveToPreviousDiff v = v) \<and>
   (\<forall>ds. diffs v = Some ds \<and> ds \<noteq> [] \<longrightarrow>
      (0 \<le> previousTarget (fst (getCursorBufferPosition (editor v))) ds \<longrightarrow>
         fst (getCursorBufferPosition (editor (moveToPreviousDiff v)))
           = previousTarget (fst (getCursorBufferPosition (editor v))) ds) \<and>
      (list_all (\<lambda>d. 1 \<le> newStart d) ds \<longrightarrow>
         0 \<le> previousTarget (fst (getCursorBufferPosition (editor v))) ds))"
proof (intro conjI allI impI)
  assume "diffs v = None \<or> diffs v = Some []"
  then show "moveToPreviousDiff v = v" by (rule moveToPreviousDiff_noop)
next
  fix ds
  assume ds: "diffs v = Some ds \<and> ds \<noteq> []"
    and "0 \<le> previousTarget (fst (getCursorBufferPosition (editor v))) ds"
  then show "fst (getCursorBufferPosition (editor (moveToPreviousDiff v)))
      = previousTarget (fst (getCursorBufferPosition (editor v))) ds"
    by (simp add: moveToPreviousDiff_general moveToLineNumber_def setCursorToLine_def)
next
  fix ds
  assume "diffs v = Some ds \<and> ds \<noteq> []" and "list_all (\<lambda>d. 1 \<le> newStart d) ds"
  then show "0 \<le> previousTarget (fst (getCursorBufferPosition (editor v))) ds"
    by (simp add: oneBased_targets)
qed

text \<open>
  With start rows 3, 10, 20 and the cursor on row 0, the cursor moves to row 20.
\<close>

theorem moveToPreviousDiff_target_witness:
  "previousTarget 0 exampleDiffs = 20 \<and>
   fst (getCursorBufferPosition (editor (moveToPreviousDiff
     (exampleView\<lparr>editor := (editor exampleView)\<lparr>getCursorBufferPosition := (0, 0)\<rparr>,
                  diffs := Some exampleDiffs\<rparr>)))) = 20"
proof -
  have a: "previousTarget 0 exampleDiffs = 20"
    by (simp add: previousTarget_def rowsBefore_def startRows_def exampleDiffs_def)
  have d: "exampleDiffs \<noteq> []"
    by (simp add: exampleDiffs_def)
  from moveToPreviousDiff_target
    [of "exampleView\<lparr>editor := (editor exampleView)\<lparr>getCursorBufferPosition := (0, 0)\<rparr>,
                      diffs := Some exampleDiffs\<rparr>"]
  show ?thesis
    by (simp add: a d)
qed

section \<open>Recomputation\<close>

lemma updateDiffsResumed_None:
  "updateDiffsResumed None v =
     v\<lparr>editor := (editor v)\<lparr>markerStore := destroyAll (markers v) (markerStore (editor v))\<rparr>,
       markers := []\<rparr>"
  by (simp add: updateDiffsResumed_def removeDecorations_eq)

lemma updateDiffsResumed_Some:
  "updateDiffsResumed (Some hunks) v =
     v\<lparr>editor := (editor v)\<lparr>markerStore :=
         destroyAll (markers v) (markerStore (editor v)) @ map markerOf (map toDiff hunks)\<rparr>,
       markers := [length (markerStore (editor v)) ..< length (markerStore (editor v)) + length hunks],
       diffs := Some (map toDiff hunks)\<rparr>"
  by (simp add: updateDiffsResumed_def removeDecorations_eq addDecorations_def addDecorations_eq
      destroyAll_length)

lemma updateDiffs_fails:
  "preconditionFails v \<Longrightarrow> updateDiffs v = removeDecorations v"
  by (simp add: updateDiffs_def)

lemma updateDiffs_fetches:
  "\<not> preconditionFails v \<Longrightarrow>
   updateDiffs v = v\<lparr>pendingFetches := pendingFetches v @
     [FetchRequest (relativizePath v (the (getPath (editor v))))
        (if isModified (editor v) then Some (getText (editor v)) else None) 0]\<rparr>"
  by (simp add: updateDiffs_def)

lemma decoratedView_markers: "markers decoratedView = [0, 1]"
  by (simp add: decoratedView_def updateDiffsResumed_Some example_defs upt_conv_Cons del: upt_Suc)

lemma decoratedView_store: "length (markerStore (editor decoratedView)) = 2"
  by (simp add: decoratedView_def updateDiffsResumed_Some example_defs destroyAll_length)

lemma decoratedView_valid: "trackedValid decoratedView"
  by (simp add: trackedValid_def decoratedView_markers decoratedView_store)



lemma resumed_old_destroyed:
  assumes "trackedValid v" and "m \<in> set (markers v)"
  shows "markerDestroyed (markerStore (editor (updateDiffsResumed filePatch v)) ! m) \<and>
     m \<notin> set (markers (updateDiffsResumed filePatch v))"
proof -
  from assms have m: "m < length (markerStore (editor v))"
    by (simp add: trackedValid_def list_all_iff)
  show ?thesis
  proof (cases filePatch)
    case None
    with m assms(2) show ?thesis
      by (simp add: updateDiffsResumed_None destroyAll_nth)
  next
    case (Some hunks)
    with m assms(2) show ?thesis
      by (simp add: updateDiffsResumed_Some destroyAll_nth destroyAll_length nth_append)
  qed
qed

lemma resumed_new_marker:
  assumes "i < length hunks"
  shows "markers (updateDiffsResumed (Some hunks) v) ! i = length (markerStore (editor v)) + i"
    and "markerStore (editor (updateDiffsResumed (Some hunks) v)) ! (length (markerStore (editor v)) + i)
           = markerOf (toDiff (hunks ! i))"
    and "length (markerStore (editor (updateDiffsResumed (Some hunks) v)))
           = length (markerStore (editor v)) + length hunks"
  using assms
  by (simp_all add: updateDiffsResumed_Some destroyAll_length nth_append)

lemma resumed_tracked:
  "map (\<lambda>m. markerStore (editor (updateDiffsResumed (Some hunks) v)) ! m)
       (markers (updateDiffsResumed (Some hunks) v))
     = map (\<lambda>h. markerOf (toDiff h)) hunks"
proof (rule nth_equalityI)
  show "length (map (\<lambda>m. markerStore (editor (updateDiffsResumed (Some hunks) v)) ! m)
       (markers (updateDiffsResumed (Some hunks) v))) = length (map (\<lambda>h. markerOf (toDiff h)) hunks)"
    by (simp add: updateDiffsResumed_Some)
next
  fix i
  assume "i < length (map (\<lambda>m. markerStore (editor (updateDiffsResumed (Some hunks) v)) ! m)
       (markers (updateDiffsResumed (Some hunks) v)))"
  then have i: "i < length hunks"
    by (simp add: updateDiffsResumed_Some)
  then have "i < length (markers (updateDiffsResumed (Some hunks) v))"
    by (simp add: updateDiffsResumed_Some)
  then show "map (\<lambda>m. markerStore (editor (updateDiffsResumed (Some hunks) v)) ! m)
       (markers (updateDiffsResumed (Some hunks) v)) ! i = map (\<lambda>h. markerOf (toDiff h)) hunks ! i"
    using i resumed_new_marker(1,2) [OF i, of v] by simp
qed

lemma resumed_tracked_live:
  assumes "m \<in> set (markers (updateDiffsResumed (Some hunks) v))"
  shows "m < length (markerStore (editor (updateDiffsResumed (Some hunks) v))) \<and>
     \<not> markerDestroyed (markerStore (editor (updateDiffsResumed (Some hunks) v)) ! m)"
proof -
  from assms have "length (markerStore (editor v)) \<le> m"
    and "m < length (markerStore (editor v)) + length hunks"
    by (simp_all add: updateDiffsResumed_Some)
  then have "m - length (markerStore (editor v)) < length hunks"
    and "m = length (markerStore (editor v)) + (m - length (markerStore (editor v)))"
    by simp_all
  then obtain i where i: "i < length hunks" and m: "m = length (markerStore (editor v)) + i"
    by blast
  from resumed_new_marker(2,3) [OF i, of v] markerOf_class [of "toDiff (hunks ! i)"] i
  show ?thesis
    by (simp add: m)
qed

lemma resumed_keeps_destroyed:
  assumes "i < length (markerStore (editor v))" and "markerDestroyed (markerStore (editor v) ! i)"
  shows "markerDestroyed (markerStore (editor (updateDiffsResumed filePatch v)) ! i)"
  using assms
  by (cases filePatch)
    (simp_all add: updateDiffsResumed_None updateDiffsResumed_Some destroyAll_nth destroyAll_length
      nth_append)

lemma resumed_store_grows:
  "length (markerStore (editor v)) \<le> length (markerStore (editor (updateDiffsResumed filePatch v)))"
  by (cases filePatch)
    (simp_all add: updateDiffsResumed_None updateDiffsResumed_Some destroyAll_length)

lemma resumed_fresh:
  "m < length (markerStore (editor v)) \<Longrightarrow> m \<notin> set (markers (updateDiffsResumed filePatch v))"
  by (cases filePatch) (simp_all add: updateDiffsResumed_None updateDiffsResumed_Some)


text \<open>
  C5: when the editor is destroyed, has no path, there is no repository, the
  repository is loading or it is not present, \<open>updateDiffs\<close> is
  \<open>removeDecorations\<close> and nothing else: no call of \<open>getFilePatchForPath\<close> is
  made, no marker stays tracked, every marker that was tracked is destroyed, and
  the result is a view (the guard never reads a missing repository).
\<close>

theorem updateDiffs_precondition:
  assumes "isDestroyed (editor v) \<or> getPath (editor v) = None \<or> getPath (editor v) = Some [] \<or>
     activeRepository v = None \<or>
     (\<exists>repo. activeRepository v = Some repo \<and> (isLoading repo \<or> \<not> isPresent repo))"
  shows "updateDiffs v = removeDecorations v \<and>
     pendingFetches (updateDiffs v) = pendingFetches v \<and>
     markers (updateDiffs v) = [] \<and>
     length (markerStore (editor (updateDiffs v))) = length (markerStore (editor v)) \<and>
     (\<forall>m \<in> set (markers v). m < length (markerStore (editor v)) \<longrightarrow>
        markerDestroyed (markerStore (editor (updateDiffs v)) ! m))"
proof -
  from assms have "preconditionFails v"
    by (auto simp: preconditionFails_def falsyPath_def)
  then have "updateDiffs v = removeDecorations v"
    by (rule updateDiffs_fails)
  then show ?thesis
    by (simp add: removeDecorations_eq destroyAll_length destroyAll_nth)
qed

text \<open>A view with two live markers whose repository reports that it is loading.\<close>

theorem updateDiffs_precondition_witness:
  "activeRepository (decoratedView\<lparr>activeRepository := Some \<lparr>isLoading = True, isPresent = True\<rparr>\<rparr>)
     = Some \<lparr>isLoading = True, isPresent = True\<rparr> \<and>
   markers (decoratedView\<lparr>activeRepository := Some \<lparr>isLoading = True, isPresent = True\<rparr>\<rparr>) = [0, 1] \<and>
   pendingFetches (updateDiffs
     (decoratedView\<lparr>activeRepository := Some \<lparr>isLoading = True, isPresent = True\<rparr>\<rparr>)) = [] \<and>
   markers (updateDiffs
     (decoratedView\<lparr>activeRepository := Some \<lparr>isLoading = True, isPresent = True\<rparr>\<rparr>)) = [] \<and>
   markerDestroyed (markerStore (editor (updateDiffs
     (decoratedView\<lparr>activeRepository := Some \<lparr>isLoading = True, isPresent = True\<rparr>\<rparr>))) ! 0) \<and>
   markerDestroyed (markerStore (editor (updateDiffs
     (decoratedView\<lparr>activeRepository := Some \<lparr>isLoading = True, isPresent = True\<rparr>\<rparr>))) ! 1)"
proof -
  let ?w = "decoratedView\<lparr>activeRepository := Some \<lparr>isLoading = True, isPresent = True\<rparr>\<rparr>"
  have p: "pendingFetches decoratedView = []"
    by (simp add: decoratedView_def updateDiffsResumed_Some example_defs)
  have "activeRepository ?w = Some \<lparr>isLoading = True, isPresent = True\<rparr>"
    by simp
  then have "isDestroyed (editor ?w) \<or> getPath (editor ?w) = None \<or> getPath (editor ?w) = Some [] \<or>
     activeRepository ?w = None \<or>
     (\<exists>repo. activeRepository ?w = Some repo \<and> (isLoading repo \<or> \<not> isPresent repo))"
    by simp
  from updateDiffs_precondition [OF this, THEN conjunct2] show ?thesis
    by (simp add: decoratedView_markers decoratedView_store p)
qed

text \<open>
  C6: once the fetch has resolved, \<open>this.markers\<close> holds one marker per hunk of
  the patch, none of them twice, and none at all when there is no patch; every
  marker tracked before is destroyed and no longer tracked; the marker of each
  hunk is live and carries the class of the hunk's classification.
\<close>

theorem sync_markers:
  assumes "trackedValid v"
  shows "length (markers (updateDiffsResumed filePatch v)) =
       (case filePatch of None \<Rightarrow> 0 | Some hunks \<Rightarrow> length hunks) \<and>
     distinct (markers (updateDiffsResumed filePatch v)) \<and>
     (\<forall>m \<in> set (markers v).
        markerDestroyed (markerStore (editor (updateDiffsResumed filePatch v)) ! m) \<and>
        m \<notin> set (markers (updateDiffsResumed filePatch v))) \<and>
     (\<forall>hunks. filePatch = Some hunks \<longrightarrow>
        (\<forall>i < length hunks.
           markers (updateDiffsResumed filePatch v) ! i
             < length (markerStore (editor (updateDiffsResumed filePatch v))) \<and>
           \<not> markerDestroyed (markerStore (editor (updateDiffsResumed filePatch v)) !
                (markers (updateDiffsResumed filePatch v) ! i)) \<and>
           (getOldRowCount (hunks ! i) = 0 \<and> 0 < getNewRowCount (hunks ! i) \<longrightarrow>
              decorations (markerStore (editor (updateDiffsResumed filePatch v)) !
                (markers (updateDiffsResumed filePatch v) ! i)) = [(''line-number'', ''git-line-added'')]) \<and>
           (getNewRowCount (hunks ! i) = 0 \<and> 0 < getOldRowCount (hunks ! i) \<longrightarrow>
              decorations (markerStore (editor (updateDiffsResumed filePatch v)) !
                (markers (updateDiffsResumed filePatch v) ! i)) = [(''line-number'', ''git-line-removed'')]) \<and>
           (0 < getOldRowCount (hunks ! i) \<and> 0 < getNewRowCount (hunks ! i) \<longrightarrow>
              decorations (markerStore (editor (updateDiffsResumed filePatch v)) !
                (markers (updateDiffsResumed filePatch v) ! i)) = [(''line-number'', ''git-line-modified'')])))"
proof (intro conjI ballI allI impI)
  show "length (markers (updateDiffsResumed filePatch v)) =
       (case filePatch of None \<Rightarrow> 0 | Some hunks \<Rightarrow> length hunks)"
    by (cases filePatch) (simp_all add: updateDiffsResumed_None updateDiffsResumed_Some)
next
  show "distinct (markers (updateDiffsResumed filePatch v))"
    by (cases filePatch) (simp_all add: updateDiffsResumed_None updateDiffsResumed_Some)
next
  fix m assume "m \<in> set (markers v)"
  with assms show "markerDestroyed (markerStore (editor (updateDiffsResumed filePatch v)) ! m)"
    by (simp add: resumed_old_destroyed)
next
  fix m assume "m \<in> set (markers v)"
  with assms show "m \<notin> set (markers (updateDiffsResumed filePatch v))"
    by (simp add: resumed_old_destroyed)
next
  fix hunks i
  assume fp: "filePatch = Some hunks" and i: "i < length hunks"
  note new = resumed_new_marker [OF i, of v]
  note cls = markerOf_class [of "toDiff (hunks ! i)"]
  show "markers (updateDiffsResumed filePatch v) ! i
      < length (markerStore (editor (updateDiffsResumed filePatch v)))"
    using i by (simp add: fp new)
  show "\<not> markerDestroyed (markerStore (editor (updateDiffsResumed filePatch v)) !
                (markers (updateDiffsResumed filePatch v) ! i))"
    using cls by (simp add: fp new)
  show "decorations (markerStore (editor (updateDiffsResumed filePatch v)) !
          (markers (updateDiffsResumed filePatch v) ! i)) = [(''line-number'', ''git-line-added'')]"
    if "getOldRowCount (hunks ! i) = 0 \<and> 0 < getNewRowCount (hunks ! i)"
    using cls that by (simp add: fp new toDiff_def)
  show "decorations (markerStore (editor (updateDiffsResumed filePatch v)) !
          (markers (updateDiffsResumed filePatch v) ! i)) = [(''line-number'', ''git-line-removed'')]"
    if "getNewRowCount (hunks ! i) = 0 \<and> 0 < getOldRowCount (hunks ! i)"
    using cls that by (simp add: fp new toDiff_def)
  show "decorations (markerStore (editor (updateDiffsResumed filePatch v)) !
          (markers (updateDiffsResumed filePatch v) ! i)) = [(''line-number'', ''git-line-modified'')]"
    if "0 < getOldRowCount (hunks ! i) \<and> 0 < getNewRowCount (hunks ! i)"
    using cls that by (simp add: fp new toDiff_def)
qed

theorem sync_markers_witness:
  "trackedValid decoratedView \<and> markers decoratedView = [0, 1] \<and>
   length (markers (updateDiffsResumed
      (Some [\<lparr>getNewStartRow = 5, getOldRowCount = 2, getNewRowCount = 2\<rparr>]) decoratedView)) = 1 \<and>
   markerDestroyed (markerStore (editor (updateDiffsResumed
      (Some [\<lparr>getNewStartRow = 5, getOldRowCount = 2, getNewRowCount = 2\<rparr>]) decoratedView)) ! 0) \<and>
   markerDestroyed (markerStore (editor (updateDiffsResumed
      (Some [\<lparr>getNewStartRow = 5, getOldRowCount = 2, getNewRowCount = 2\<rparr>]) decoratedView)) ! 1) \<and>
   decorations (markerStore (editor (updateDiffsResumed
      (Some [\<lparr>getNewStartRow = 5, getOldRowCount = 2, getNewRowCount = 2\<rparr>]) decoratedView)) !
        (markers (updateDiffsResumed
      (Some [\<lparr>getNewStartRow = 5, getOldRowCount = 2, getNewRowCount = 2\<rparr>]) decoratedView) ! 0))
     = [(''line-number'', ''git-line-modified'')] \<and>
   length (markers (updateDiffsResumed None decoratedView)) = 0"
  using sync_markers [OF decoratedView_valid,
      of "Some [\<lparr>getNewStartRow = 5, getOldRowCount = 2, getNewRowCount = 2\<rparr>]"]
    sync_markers [OF decoratedView_valid, of None]
  by (simp add: decoratedView_markers decoratedView_valid)



section \<open>Scheduling, completion order and teardown\<close>

lemma sched_updateDiffs:
  "immediateId (updateDiffs v) = immediateId v"
  "immediateQueue (updateDiffs v) = immediateQueue v"
  "nextImmediate (updateDiffs v) = nextImmediate v"
  by (simp_all add: updateDiffs_def removeDecorations_eq Let_def)

lemma sched_updateDiffsResumed:
  "immediateId (updateDiffsResumed filePatch v) = immediateId v"
  "immediateQueue (updateDiffsResumed filePatch v) = immediateQueue v"
  "nextImmediate (updateDiffsResumed filePatch v) = nextImmediate v"
  by (cases filePatch; simp add: updateDiffsResumed_None updateDiffsResumed_Some)+

lemma sched_moveToLineNumber:
  "immediateId (moveToLineNumber n v) = immediateId v"
  "immediateQueue (moveToLineNumber n v) = immediateQueue v"
  "nextImmediate (moveToLineNumber n v) = nextImmediate v"
  by (simp_all add: moveToLineNumber_def split: option.splits)

lemma sched_moveToNextDiff:
  "immediateId (moveToNextDiff v) = immediateId v"
  "immediateQueue (moveToNextDiff v) = immediateQueue v"
  "nextImmediate (moveToNextDiff v) = nextImmediate v"
  by (simp_all add: moveToNextDiff_def sched_moveToLineNumber Let_def split: option.splits)

lemma sched_moveToPreviousDiff:
  "immediateId (moveToPreviousDiff v) = immediateId v"
  "immediateQueue (moveToPreviousDiff v) = immediateQueue v"
  "nextImmediate (moveToPreviousDiff v) = nextImmediate v"
  by (simp_all add: moveToPreviousDiff_def sched_moveToLineNumber Let_def split: option.splits)

lemma sched_onDidDestroy:
  "immediateId (onDidDestroy v) = immediateId v"
  "immediateQueue (onDidDestroy v) =
     (case immediateId v of None \<Rightarrow> immediateQueue v | Some h \<Rightarrow> removeAll h (immediateQueue v))"
  "nextImmediate (onDidDestroy v) = nextImmediate v"
  by (simp_all add: onDidDestroy_def cancelUpdate_def removeDecorations_eq split: option.splits)

lemma removeAll_only: "set xs \<subseteq> {h} \<Longrightarrow> removeAll h xs = []"
  by (induction xs) auto

lemma queue_cancelled:
  assumes "schedInv v"
  shows "immediateQueue (cancelUpdate v) = []"
proof (cases "immediateId v")
  case None
  with assms show ?thesis
    by (cases "immediateQueue v") (simp_all add: schedInv_def cancelUpdate_def)
next
  case (Some h)
  with assms have "set (immediateQueue v) \<subseteq> {h}"
    by (auto simp: schedInv_def list_all_iff)
  then have "removeAll h (immediateQueue v) = []"
    by (rule removeAll_only)
  with Some show ?thesis
    by (simp add: cancelUpdate_def)
qed

lemma scheduleUpdate_eq:
  assumes "schedInv v"
  shows "scheduleUpdate v =
     v\<lparr>immediateId := Some (nextImmediate v), immediateQueue := [nextImmediate v],
       nextImmediate := Suc (nextImmediate v)\<rparr>"
proof -
  have "immediateQueue (cancelUpdate v) = []"
    using assms by (rule queue_cancelled)
  moreover have "cancelUpdate v = v\<lparr>immediateQueue := immediateQueue (cancelUpdate v)\<rparr>"
    by (simp add: cancelUpdate_def split: option.splits)
  ultimately have c: "cancelUpdate v = v\<lparr>immediateQueue := []\<rparr>"
    by simp
  show ?thesis
    by (simp add: scheduleUpdate_def c Let_def)
qed

lemma schedInv_queue: "schedInv v \<Longrightarrow> length (immediateQueue v) \<le> 1"
proof -
  assume inv: "schedInv v"
  show ?thesis
  proof (cases "immediateQueue v")
    case Nil
    then show ?thesis by simp
  next
    case (Cons h hs)
    with inv have "set hs \<subseteq> {h}" and "h \<notin> set hs"
      by (auto simp: schedInv_def list_all_iff)
    then have "hs = []" by (cases hs) auto
    with Cons show ?thesis by simp
  qed
qed

lemma schedInv_tail:
  "schedInv v \<Longrightarrow> immediateQueue v = h # hs \<Longrightarrow> schedInv (v\<lparr>immediateQueue := hs\<rparr>)"
  by (auto simp: schedInv_def list_all_iff)

lemma schedInv_frame:
  "schedInv v \<Longrightarrow> immediateId w = immediateId v \<Longrightarrow> immediateQueue w = immediateQueue v \<Longrightarrow>
   nextImmediate w = nextImmediate v \<Longrightarrow> schedInv w"
  by (auto simp: schedInv_def list_all_iff)

lemma schedInv_step:
  assumes "schedInv v"
  shows "schedInv (step ev v)"
proof (cases ev)
  case (DidStopChanging t m)
  with assms show ?thesis
    by (auto simp: Let_def sched_updateDiffs intro: schedInv_frame [OF assms])
next
  case (DidChangePath p)
  with assms show ?thesis
    by (auto simp: Let_def sched_updateDiffs intro: schedInv_frame [OF assms])
next
  case DidDestroy
  have "schedInv (onDidDestroy w)" if "schedInv w" for w
    using that
    by (auto simp: schedInv_def sched_onDidDestroy list_all_iff distinct_removeAll
        split: option.splits)
  moreover have "schedInv (v\<lparr>editor := e\<rparr>)" for e
    using assms by (simp add: schedInv_def)
  ultimately show ?thesis
    using assms DidDestroy by (simp add: Let_def)
next
  case MoveToNextDiff
  with assms show ?thesis
    by (auto simp: sched_moveToNextDiff intro: schedInv_frame [OF assms])
next
  case MoveToPreviousDiff
  with assms show ?thesis
    by (auto simp: sched_moveToPreviousDiff intro: schedInv_frame [OF assms])
next
  case ScheduleUpdate
  with assms show ?thesis
    by (simp add: scheduleUpdate_eq) (simp add: schedInv_def)
next
  case RunImmediate
  show ?thesis
  proof (cases "immediateQueue v")
    case Nil
    with assms RunImmediate show ?thesis by simp
  next
    case (Cons h hs)
    from assms Cons have "schedInv (v\<lparr>immediateQueue := hs\<rparr>)"
      by (rule schedInv_tail)
    then have "schedInv (updateDiffs (v\<lparr>immediateQueue := hs\<rparr>))"
      by (rule schedInv_frame) (simp_all add: sched_updateDiffs)
    with RunImmediate Cons show ?thesis by simp
  qed
next
  case (FetchResolved k filePatch)
  have "schedInv (v\<lparr>pendingFetches := fs\<rparr>)" for fs
    using assms by (simp add: schedInv_def)
  then have "schedInv (updateDiffsResumed filePatch (v\<lparr>pendingFetches := fs\<rparr>))" for fs
    by (rule schedInv_frame) (simp_all add: sched_updateDiffsResumed)
  with assms FetchResolved show ?thesis by simp
next
  case (RepositoryChanged repo)
  with assms show ?thesis by (simp add: schedInv_def)
qed

lemma schedInv_constructor: "schedInv (constructor e repo rel)"
  by (simp add: constructor_def scheduleUpdate_def cancelUpdate_def schedInv_def)

lemma schedInv_run: "schedInv v \<Longrightarrow> schedInv (run evs v)"
  unfolding run_def
  by (induction evs arbitrary: v) (simp_all add: schedInv_step)

lemmas run_defs = run_def updateDiffs_def preconditionFails_def falsyPath_def
  updateDiffsResumed_Some updateDiffsResumed_None onDidDestroy_def removeDecorations_eq
  destroyAll_def markerOf_def decorationOf_def lineMarker_def toDiff_def hunkA_def hunkB_def

lemma pending_updateDiffsResumed:
  "pendingFetches (updateDiffsResumed filePatch v) = pendingFetches v"
  by (cases filePatch) (simp_all add: updateDiffsResumed_None updateDiffsResumed_Some)

lemma step_FetchResolved_Some:
  assumes "k < length (pendingFetches v)"
  shows "diffs (step (FetchResolved k (Some hunks)) v) = Some (map toDiff hunks)"
    and "length (markers (step (FetchResolved k (Some hunks)) v)) = length hunks"
    and "pendingFetches (step (FetchResolved k filePatch) v)
           = take k (pendingFetches v) @ drop (Suc k) (pendingFetches v)"
  using assms
  by (simp_all add: updateDiffsResumed_Some pending_updateDiffsResumed)

lemma trackedValid_frame:
  "trackedValid v \<Longrightarrow> markers w = markers v \<Longrightarrow>
   markerStore (editor w) = markerStore (editor v) \<Longrightarrow> trackedValid w"
  by (simp add: trackedValid_def)

lemma trackedValid_removeDecorations: "trackedValid (removeDecorations v)"
  by (simp add: trackedValid_def removeDecorations_eq)

lemma trackedValid_updateDiffs: "trackedValid v \<Longrightarrow> trackedValid (updateDiffs v)"
  by (simp add: updateDiffs_def trackedValid_removeDecorations Let_def) (simp add: trackedValid_def)

lemma trackedValid_updateDiffsResumed: "trackedValid (updateDiffsResumed filePatch v)"
  by (cases filePatch)
    (simp_all add: trackedValid_def updateDiffsResumed_None updateDiffsResumed_Some
      destroyAll_length list_all_iff)

lemma tracked_moveToLineNumber:
  "markers (moveToLineNumber n v) = markers v"
  "markerStore (editor (moveToLineNumber n v)) = markerStore (editor v)"
  by (simp_all add: moveToLineNumber_def setCursorToLine_def split: option.splits)

lemma trackedValid_moveToNextDiff: "trackedValid v \<Longrightarrow> trackedValid (moveToNextDiff v)"
  by (erule trackedValid_frame)
    (simp_all add: moveToNextDiff_def tracked_moveToLineNumber Let_def split: option.splits)

lemma trackedValid_moveToPreviousDiff: "trackedValid v \<Longrightarrow> trackedValid (moveToPreviousDiff v)"
  by (erule trackedValid_frame)
    (simp_all add: moveToPreviousDiff_def tracked_moveToLineNumber Let_def split: option.splits)

lemma trackedValid_step:
  assumes "trackedValid v"
  shows "trackedValid (step ev v)"
proof (cases ev)
  case (DidStopChanging t m)
  have "trackedValid (v\<lparr>editor := (editor v)\<lparr>getText := t, isModified := m\<rparr>\<rparr>)"
    using assms by (simp add: trackedValid_def)
  with assms DidStopChanging show ?thesis
    by (simp add: Let_def trackedValid_updateDiffs)
next
  case (DidChangePath p)
  have "trackedValid (v\<lparr>editor := (editor v)\<lparr>getPath := p\<rparr>\<rparr>)"
    using assms by (simp add: trackedValid_def)
  with assms DidChangePath show ?thesis
    by (simp add: Let_def trackedValid_updateDiffs)
next
  case DidDestroy
  have "trackedValid (v\<lparr>editor := (editor v)\<lparr>isDestroyed := True\<rparr>\<rparr>)"
    using assms by (simp add: trackedValid_def)
  moreover have "trackedValid (onDidDestroy w)" for w
    by (simp add: onDidDestroy_def trackedValid_def removeDecorations_eq)
  ultimately show ?thesis
    using assms DidDestroy by (simp add: Let_def)
next
  case MoveToNextDiff
  with assms show ?thesis by (simp add: trackedValid_moveToNextDiff)
next
  case MoveToPreviousDiff
  with assms show ?thesis by (simp add: trackedValid_moveToPreviousDiff)
next
  case ScheduleUpdate
  have "trackedValid (scheduleUpdate v)"
    using assms
    by (rule trackedValid_frame)
      (simp_all add: scheduleUpdate_def cancelUpdate_def Let_def split: option.splits)
  with ScheduleUpdate show ?thesis by simp
next
  case RunImmediate
  have "trackedValid (v\<lparr>immediateQueue := hs\<rparr>)" for hs
    using assms by (simp add: trackedValid_def)
  then have "trackedValid (updateDiffs (v\<lparr>immediateQueue := hs\<rparr>))" for hs
    by (rule trackedValid_updateDiffs)
  with assms RunImmediate show ?thesis
    by (simp split: list.splits)
next
  case (FetchResolved k filePatch)
  with assms show ?thesis
    by (simp add: trackedValid_updateDiffsResumed)
next
  case (RepositoryChanged repo)
  with assms show ?thesis by (simp add: trackedValid_def)
qed

lemma trackedValid_reachable: "trackedValid (run evs (constructor e repo rel))"
proof -
  have "trackedValid (constructor e repo rel)"
    by (simp add: constructor_def scheduleUpdate_def cancelUpdate_def trackedValid_def)
  moreover have "trackedValid v \<Longrightarrow> trackedValid (fold step evs v)" for v
    by (induction evs arbitrary: v) (simp_all add: trackedValid_step)
  ultimately show ?thesis
    by (simp add: run_def)
qed

lemma destroy_cancels:
  assumes "schedInv v" and "\<not> isDestroyed (editor v)" and "subscriptions v"
  shows "immediateQueue (step DidDestroy v) = []"
    and "markers (step DidDestroy v) = []"
    and "\<not> subscriptions (step DidDestroy v)"
proof -
  have "immediateQueue (cancelUpdate w) = []" if "schedInv w" for w
    using that by (rule queue_cancelled)
  moreover have "schedInv (v\<lparr>editor := (editor v)\<lparr>isDestroyed := True\<rparr>\<rparr>)"
    using assms(1) by (simp add: schedInv_def)
  ultimately have "immediateQueue (cancelUpdate (v\<lparr>editor := (editor v)\<lparr>isDestroyed := True\<rparr>\<rparr>)) = []"
    by simp
  then show "immediateQueue (step DidDestroy v) = []"
    using assms(2,3) by (simp add: Let_def onDidDestroy_def removeDecorations_eq)
  show "markers (step DidDestroy v) = []" and "\<not> subscriptions (step DidDestroy v)"
    using assms(2,3) by (simp_all add: Let_def onDidDestroy_def removeDecorations_eq)
qed

lemma twoPending_eq:
  "twoPending = decoratedView
     \<lparr>immediateId := Some 1, immediateQueue := [], nextImmediate := 2,
      pendingFetches := [FetchRequest ''/repo/a.txt'' None 0, FetchRequest ''/repo/a.txt'' None 0]\<rparr>"
  by (simp add: twoPending_def decoratedView_def run_defs example_defs Let_def)

lemma twoPending_facts:
  "trackedValid twoPending"
  "length (pendingFetches twoPending) = 2"
  "markers twoPending = [0, 1]"
  "markers (step (FetchResolved (Suc 0) (Some [hunkB])) twoPending) = [2]"
  using decoratedView_valid
  by (simp_all add: twoPending_eq trackedValid_def decoratedView_markers decoratedView_store
      updateDiffsResumed_Some)

lemma scheduledView_eq:
  "scheduledView =
     constructor exampleEditor (Some \<lparr>isLoading = False, isPresent = True\<rparr>) (\<lambda>p. p)
       \<lparr>editor := exampleEditor\<lparr>getText := ''x'', isModified := True\<rparr>,
        immediateId := Some 1, immediateQueue := [1], nextImmediate := 2,
        pendingFetches := [FetchRequest ''/repo/a.txt'' (Some ''x'') 0]\<rparr>"
  by (simp add: scheduledView_def run_defs example_defs Let_def)

lemma scheduledView_facts:
  "immediateQueue scheduledView = [1]"
  "nextImmediate scheduledView = 2"
  "\<not> isDestroyed (editor scheduledView)"
  "subscriptions scheduledView"
  "getPath (editor scheduledView) = Some ''/repo/a.txt''"
  "isModified (editor scheduledView)"
  "getText (editor scheduledView) = ''x''"
  "relativizePath scheduledView = (\<lambda>p. p)"
  "\<not> preconditionFails (scheduledView\<lparr>editor := (editor scheduledView)\<lparr>getText := ''y'', isModified := True\<rparr>\<rparr>)"
  "\<not> preconditionFails (scheduledView\<lparr>editor := (editor scheduledView)\<lparr>getPath := Some ''/repo/b.txt''\<rparr>\<rparr>)"
  "preconditionFails (scheduledView\<lparr>editor := (editor scheduledView)\<lparr>getPath := None\<rparr>\<rparr>)"
  by (simp_all add: scheduledView_eq constructor_def scheduleUpdate_def cancelUpdate_def
      exampleEditor_def preconditionFails_def falsyPath_def)

text \<open>
  C7, as stated, fails: recomputation A starts, B is scheduled and starts, B's
  fetch resolves and is applied, then A's fetch resolves. A's result is not
  discarded: \<open>this.diffs\<close> and the tracked markers are A's afterwards.
\<close>

theorem stale_fetch_counterexample:
  "diffs (run [RunImmediate, ScheduleUpdate, RunImmediate, FetchResolved 1 (Some [hunkB])] exampleView)
     = Some [toDiff hunkB] \<and>
   diffs (run [RunImmediate, ScheduleUpdate, RunImmediate, FetchResolved 1 (Some [hunkB]),
               FetchResolved 0 (Some [hunkA])] exampleView)
     = Some [toDiff hunkA] \<and>
   toDiff hunkA \<noteq> toDiff hunkB \<and>
   map (\<lambda>m. decorations (markerStore (editor
          (run [RunImmediate, ScheduleUpdate, RunImmediate, FetchResolved 1 (Some [hunkB])]
             exampleView)) ! m))
       (markers (run [RunImmediate, ScheduleUpdate, RunImmediate, FetchResolved 1 (Some [hunkB])]
             exampleView))
     = [[(''line-number'', ''git-line-removed'')]] \<and>
   map (\<lambda>m. decorations (markerStore (editor
          (run [RunImmediate, ScheduleUpdate, RunImmediate, FetchResolved 1 (Some [hunkB]),
               FetchResolved 0 (Some [hunkA])] exampleView)) ! m))
       (markers (run [RunImmediate, ScheduleUpdate, RunImmediate, FetchResolved 1 (Some [hunkB]),
               FetchResolved 0 (Some [hunkA])] exampleView))
     = [[(''line-number'', ''git-line-added'')]]"
  by (simp add: run_defs example_defs Let_def)

text \<open>
  C7, amended: \<open>updateDiffs\<close> keeps no token. A fetch that completes is applied
  when it completes: \<open>this.diffs\<close> becomes the hunks of its patch, the tracked
  markers become exactly the markers of those hunks, all live, and every marker
  tracked before is destroyed and no longer tracked. Of two recomputations in
  flight, the one whose fetch resolves last determines the decoration state,
  whichever was issued first: the markers of the one that resolved first are
  destroyed.
\<close>

theorem fetch_applied_on_completion:
  assumes "trackedValid v"
    and "k < length (pendingFetches v)" and "j < length (pendingFetches v) - 1"
    and "w1 = step (FetchResolved k (Some hunksB)) v"
    and "w2 = step (FetchResolved j (Some hunksA)) w1"
  shows "w2 = run [FetchResolved k (Some hunksB), FetchResolved j (Some hunksA)] v \<and>
     diffs w1 = Some (map toDiff hunksB) \<and>
     map (\<lambda>m. markerStore (editor w1) ! m) (markers w1) = map (\<lambda>h. markerOf (toDiff h)) hunksB \<and>
     diffs w2 = Some (map toDiff hunksA) \<and>
     map (\<lambda>m. markerStore (editor w2) ! m) (markers w2) = map (\<lambda>h. markerOf (toDiff h)) hunksA \<and>
     (\<forall>m \<in> set (markers w2).
        m < length (markerStore (editor w2)) \<and> \<not> markerDestroyed (markerStore (editor w2) ! m)) \<and>
     (\<forall>m \<in> set (markers w1).
        markerDestroyed (markerStore (editor w2) ! m) \<and> m \<notin> set (markers w2)) \<and>
     (\<forall>m \<in> set (markers v).
        markerDestroyed (markerStore (editor w2) ! m) \<and> m \<notin> set (markers w2))"
proof -
  let ?v1 = "v\<lparr>pendingFetches := take k (pendingFetches v) @ drop (Suc k) (pendingFetches v)\<rparr>"
  let ?u1 = "w1\<lparr>pendingFetches := take j (pendingFetches w1) @ drop (Suc j) (pendingFetches w1)\<rparr>"
  have w1: "w1 = updateDiffsResumed (Some hunksB) ?v1"
    using assms(2,4) by simp
  have "pendingFetches w1 = take k (pendingFetches v) @ drop (Suc k) (pendingFetches v)"
    unfolding assms(4) using assms(2) by (rule step_FetchResolved_Some(3))
  then have "length (pendingFetches w1) = length (pendingFetches v) - 1"
    using assms(2) by simp
  with assms(3) have j: "j < length (pendingFetches w1)"
    by simp
  then have w2: "w2 = updateDiffsResumed (Some hunksA) ?u1"
    using assms(5) by simp
  have tv1: "trackedValid ?v1"
    using assms(1) by (simp add: trackedValid_def)
  have tw1: "trackedValid w1"
    unfolding w1 by (rule trackedValid_updateDiffsResumed)
  then have tu1: "trackedValid ?u1"
    by (simp add: trackedValid_def)
  have run: "w2 = run [FetchResolved k (Some hunksB), FetchResolved j (Some hunksA)] v"
    by (simp add: run_def assms(4,5))
  have d1: "diffs w1 = Some (map toDiff hunksB)" and d2: "diffs w2 = Some (map toDiff hunksA)"
    by (simp_all add: w1 w2 updateDiffsResumed_Some)
  have t1: "map (\<lambda>m. markerStore (editor w1) ! m) (markers w1) = map (\<lambda>h. markerOf (toDiff h)) hunksB"
    unfolding w1 by (rule resumed_tracked)
  have t2: "map (\<lambda>m. markerStore (editor w2) ! m) (markers w2) = map (\<lambda>h. markerOf (toDiff h)) hunksA"
    unfolding w2 by (rule resumed_tracked)
  have live: "\<forall>m \<in> set (markers w2).
        m < length (markerStore (editor w2)) \<and> \<not> markerDestroyed (markerStore (editor w2) ! m)"
    unfolding w2 by (intro ballI resumed_tracked_live)
  have oldB: "\<forall>m \<in> set (markers w1).
        markerDestroyed (markerStore (editor w2) ! m) \<and> m \<notin> set (markers w2)"
  proof
    fix m assume "m \<in> set (markers w1)"
    then have "m \<in> set (markers ?u1)" by simp
    from resumed_old_destroyed [OF tu1 this, of "Some hunksA"] show
      "markerDestroyed (markerStore (editor w2) ! m) \<and> m \<notin> set (markers w2)"
      by (simp add: w2 [symmetric])
  qed
  have oldV: "\<forall>m \<in> set (markers v).
        markerDestroyed (markerStore (editor w2) ! m) \<and> m \<notin> set (markers w2)"
  proof
    fix m assume m: "m \<in> set (markers v)"
    then have mv: "m \<in> set (markers ?v1)" by simp
    from m assms(1) have len: "m < length (markerStore (editor v))"
      by (simp add: trackedValid_def list_all_iff)
    from resumed_old_destroyed [OF tv1 mv, of "Some hunksB"]
    have dead1: "markerDestroyed (markerStore (editor w1) ! m)"
      by (simp add: w1 [symmetric])
    from len resumed_store_grows [of ?v1 "Some hunksB"]
    have len1: "m < length (markerStore (editor w1))"
      by (simp add: w1 [symmetric])
    then have len1': "m < length (markerStore (editor ?u1))" by simp
    from dead1 have dead1': "markerDestroyed (markerStore (editor ?u1) ! m)" by simp
    from resumed_keeps_destroyed [OF len1' dead1', of "Some hunksA"] resumed_fresh [OF len1', of "Some hunksA"]
    show "markerDestroyed (markerStore (editor w2) ! m) \<and> m \<notin> set (markers w2)"
      by (simp add: w2 [symmetric])
  qed
  from run d1 t1 d2 t2 live oldB oldV show ?thesis
    by (intro conjI)
qed

theorem fetch_applied_on_completion_witness:
  "trackedValid twoPending \<and>
   Suc 0 < length (pendingFetches twoPending) \<and> 0 < length (pendingFetches twoPending) - 1 \<and>
   markers twoPending = [0, 1] \<and>
   markers (step (FetchResolved (Suc 0) (Some [hunkB])) twoPending) = [2] \<and>
   diffs (step (FetchResolved 0 (Some [hunkA])) (step (FetchResolved (Suc 0) (Some [hunkB])) twoPending))
     = Some [toDiff hunkA] \<and>
   map (\<lambda>m. markerStore (editor
          (step (FetchResolved 0 (Some [hunkA])) (step (FetchResolved (Suc 0) (Some [hunkB])) twoPending))) ! m)
       (markers (step (FetchResolved 0 (Some [hunkA])) (step (FetchResolved (Suc 0) (Some [hunkB])) twoPending)))
     = [markerOf (toDiff hunkA)] \<and>
   markerDestroyed (markerStore (editor
      (step (FetchResolved 0 (Some [hunkA])) (step (FetchResolved (Suc 0) (Some [hunkB])) twoPending))) ! 0) \<and>
   markerDestroyed (markerStore (editor
      (step (FetchResolved 0 (Some [hunkA])) (step (FetchResolved (Suc 0) (Some [hunkB])) twoPending))) ! 1) \<and>
   markerDestroyed (markerStore (editor
      (step (FetchResolved 0 (Some [hunkA])) (step (FetchResolved (Suc 0) (Some [hunkB])) twoPending))) ! 2)"
proof -
  have k: "Suc 0 < length (pendingFetches twoPending)"
    and j: "0 < length (pendingFetches twoPending) - 1"
    by (simp_all add: twoPending_facts)
  note r = fetch_applied_on_completion
    [where hunksB = "[hunkB]" and hunksA = "[hunkA]", OF twoPending_facts(1) k j refl refl]
  note r4 = r [THEN conjunct2, THEN conjunct2, THEN conjunct2]
  note r7 = r4 [THEN conjunct2, THEN conjunct2, THEN conjunct2]
  have a: "diffs (step (FetchResolved 0 (Some [hunkA])) (step (FetchResolved (Suc 0) (Some [hunkB])) twoPending)) = Some [toDiff hunkA]"
    using r4 [THEN conjunct1] by (simp del: step.simps)
  have b: "map (\<lambda>m. markerStore (editor (step (FetchResolved 0 (Some [hunkA])) (step (FetchResolved (Suc 0) (Some [hunkB])) twoPending))) ! m) (markers (step (FetchResolved 0 (Some [hunkA])) (step (FetchResolved (Suc 0) (Some [hunkB])) twoPending))) = [markerOf (toDiff hunkA)]"
    using r4 [THEN conjunct2, THEN conjunct1] by (simp del: step.simps)
  have c: "markerDestroyed (markerStore (editor (step (FetchResolved 0 (Some [hunkA])) (step (FetchResolved (Suc 0) (Some [hunkB])) twoPending))) ! 2)"
    using r7 [THEN conjunct1] by (simp add: twoPending_facts del: step.simps)
  have d: "markerDestroyed (markerStore (editor (step (FetchResolved 0 (Some [hunkA])) (step (FetchResolved (Suc 0) (Some [hunkB])) twoPending))) ! 0)"
    "markerDestroyed (markerStore (editor (step (FetchResolved 0 (Some [hunkA])) (step (FetchResolved (Suc 0) (Some [hunkB])) twoPending))) ! 1)"
    using r7 [THEN conjunct2] by (simp_all add: twoPending_facts del: step.simps)
  from a b c d k j twoPending_facts(1,3,4) show ?thesis
    by (intro conjI)
qed

text \<open>
  C8, as stated, fails for the "stopped changing" notification: with one
  recomputation scheduled, the notification neither cancels it nor schedules
  another; \<open>updateDiffs\<close> runs at once and issues its fetch.
\<close>

theorem direct_trigger_counterexample:
  "immediateQueue exampleView = [0] \<and> pendingFetches exampleView = [] \<and>
   immediateQueue (step (DidStopChanging ''x'' True) exampleView) = [0] \<and>
   immediateId (step (DidStopChanging ''x'' True) exampleView) = Some 0 \<and>
   pendingFetches (step (DidStopChanging ''x'' True) exampleView)
     = [FetchRequest ''/repo/a.txt'' (Some ''x'') 0]"
  by (simp add: run_defs example_defs Let_def)

text \<open>
  C8, amended: in every view the constructor and the events produce, at most
  one recomputation is queued; \<open>scheduleUpdate()\<close> cancels the queued one and
  queues exactly one new immediate, which runs \<open>updateDiffs\<close> when the event
  loop reaches it and not before. The "stopped changing" and "path changed"
  notifications are \<open>updateDiffs\<close> itself, run at once: they leave the queue
  and \<open>this.immediateId\<close> as they are, issue the fetch when the guard passes
  and remove the decorations when it fails.
\<close>

theorem schedule_policy:
  assumes "v = run evs (constructor e repo rel)"
  shows "length (immediateQueue v) \<le> 1 \<and>
     nextImmediate v \<notin> set (immediateQueue v) \<and>
     step ScheduleUpdate v =
       v\<lparr>immediateId := Some (nextImmediate v), immediateQueue := [nextImmediate v],
         nextImmediate := Suc (nextImmediate v)\<rparr> \<and>
     step RunImmediate (step ScheduleUpdate v) = updateDiffs ((step ScheduleUpdate v)\<lparr>immediateQueue := []\<rparr>) \<and>
     immediateQueue (step (DidStopChanging t m) v) = immediateQueue v \<and>
     immediateId (step (DidStopChanging t m) v) = immediateId v \<and>
     immediateQueue (step (DidChangePath p) v) = immediateQueue v \<and>
     immediateId (step (DidChangePath p) v) = immediateId v \<and>
     (\<not> isDestroyed (editor v) \<and> subscriptions v \<longrightarrow>
        step (DidStopChanging t m) v
          = updateDiffs (v\<lparr>editor := (editor v)\<lparr>getText := t, isModified := m\<rparr>\<rparr>) \<and>
        step (DidChangePath p) v = updateDiffs (v\<lparr>editor := (editor v)\<lparr>getPath := p\<rparr>\<rparr>)) \<and>
     (\<not> isDestroyed (editor v) \<and> subscriptions v \<and>
      \<not> preconditionFails (v\<lparr>editor := (editor v)\<lparr>getText := t, isModified := m\<rparr>\<rparr>) \<longrightarrow>
        pendingFetches (step (DidStopChanging t m) v)
          = pendingFetches v @
              [FetchRequest (relativizePath v (the (getPath (editor v)))) (if m then Some t else None) 0]) \<and>
     (\<not> isDestroyed (editor v) \<and> subscriptions v \<and>
      \<not> preconditionFails (v\<lparr>editor := (editor v)\<lparr>getPath := Some path\<rparr>\<rparr>) \<longrightarrow>
        pendingFetches (step (DidChangePath (Some path)) v)
          = pendingFetches v @
              [FetchRequest (relativizePath v path)
                 (if isModified (editor v) then Some (getText (editor v)) else None) 0]) \<and>
     (\<not> isDestroyed (editor v) \<and> subscriptions v \<and>
      preconditionFails (v\<lparr>editor := (editor v)\<lparr>getPath := p\<rparr>\<rparr>) \<longrightarrow>
        step (DidChangePath p) v = removeDecorations (v\<lparr>editor := (editor v)\<lparr>getPath := p\<rparr>\<rparr>))"
proof -
  have inv: "schedInv v"
    unfolding assms by (intro schedInv_run schedInv_constructor)
  have fresh: "nextImmediate v \<notin> set (immediateQueue v)"
    using inv by (auto simp: schedInv_def list_all_iff)
  have sched: "step ScheduleUpdate v =
       v\<lparr>immediateId := Some (nextImmediate v), immediateQueue := [nextImmediate v],
         nextImmediate := Suc (nextImmediate v)\<rparr>"
    using inv by (simp add: scheduleUpdate_eq)
  have turn: "step RunImmediate (step ScheduleUpdate v)
      = updateDiffs ((step ScheduleUpdate v)\<lparr>immediateQueue := []\<rparr>)"
    unfolding sched by simp
  have frame: "immediateQueue (step (DidStopChanging t m) v) = immediateQueue v"
    "immediateId (step (DidStopChanging t m) v) = immediateId v"
    "immediateQueue (step (DidChangePath p) v) = immediateQueue v"
    "immediateId (step (DidChangePath p) v) = immediateId v"
    by (simp_all add: Let_def sched_updateDiffs)
  have direct: "\<not> isDestroyed (editor v) \<and> subscriptions v \<longrightarrow>
        step (DidStopChanging t m) v
          = updateDiffs (v\<lparr>editor := (editor v)\<lparr>getText := t, isModified := m\<rparr>\<rparr>) \<and>
        step (DidChangePath p) v = updateDiffs (v\<lparr>editor := (editor v)\<lparr>getPath := p\<rparr>\<rparr>)"
    by (simp add: Let_def)
  have stop: "\<not> isDestroyed (editor v) \<and> subscriptions v \<and>
      \<not> preconditionFails (v\<lparr>editor := (editor v)\<lparr>getText := t, isModified := m\<rparr>\<rparr>) \<longrightarrow>
        pendingFetches (step (DidStopChanging t m) v)
          = pendingFetches v @
              [FetchRequest (relativizePath v (the (getPath (editor v)))) (if m then Some t else None) 0]"
    by (simp add: Let_def updateDiffs_fetches)
  have path: "\<not> isDestroyed (editor v) \<and> subscriptions v \<and>
      \<not> preconditionFails (v\<lparr>editor := (editor v)\<lparr>getPath := Some path\<rparr>\<rparr>) \<longrightarrow>
        pendingFetches (step (DidChangePath (Some path)) v)
          = pendingFetches v @
              [FetchRequest (relativizePath v path)
                 (if isModified (editor v) then Some (getText (editor v)) else None) 0]"
    by (simp add: Let_def updateDiffs_fetches)
  have fails: "\<not> isDestroyed (editor v) \<and> subscriptions v \<and>
      preconditionFails (v\<lparr>editor := (editor v)\<lparr>getPath := p\<rparr>\<rparr>) \<longrightarrow>
        step (DidChangePath p) v = removeDecorations (v\<lparr>editor := (editor v)\<lparr>getPath := p\<rparr>\<rparr>)"
    by (simp add: Let_def updateDiffs_fails)
  from schedInv_queue [OF inv] fresh sched turn frame direct stop path fails show ?thesis
    by (intro conjI)
qed

theorem schedule_policy_witness:
  "scheduledView = run [DidStopChanging ''x'' True, ScheduleUpdate]
      (constructor exampleEditor (Some \<lparr>isLoading = False, isPresent = True\<rparr>) (\<lambda>p. p)) \<and>
   \<not> isDestroyed (editor scheduledView) \<and> subscriptions scheduledView \<and>
   immediateQueue scheduledView = [1] \<and>
   immediateQueue (step ScheduleUpdate scheduledView) = [2] \<and>
   immediateQueue (step (DidStopChanging ''y'' True) scheduledView) = [1] \<and>
   immediateQueue (step (DidChangePath (Some ''/repo/b.txt'')) scheduledView) = [1] \<and>
   pendingFetches (step (DidStopChanging ''y'' True) scheduledView)
     = pendingFetches scheduledView @ [FetchRequest ''/repo/a.txt'' (Some ''y'') 0] \<and>
   pendingFetches (step (DidChangePath (Some ''/repo/b.txt'')) scheduledView)
     = pendingFetches scheduledView @ [FetchRequest ''/repo/b.txt'' (Some ''x'') 0] \<and>
   step (DidChangePath None) scheduledView
     = removeDecorations (scheduledView\<lparr>editor := (editor scheduledView)\<lparr>getPath := None\<rparr>\<rparr>)"
proof -
  have v: "scheduledView = run [DidStopChanging ''x'' True, ScheduleUpdate]
      (constructor exampleEditor (Some \<lparr>isLoading = False, isPresent = True\<rparr>) (\<lambda>p. p))"
    by (simp add: scheduledView_def exampleView_def)
  note r = schedule_policy [OF v, where t = "''y''" and m = True and path = "''/repo/b.txt''"
      and p = "Some ''/repo/b.txt''"]
  note r2 = r [THEN conjunct2, THEN conjunct2]
  note r4 = r2 [THEN conjunct2, THEN conjunct2]
  note r8 = r4 [THEN conjunct2, THEN conjunct2, THEN conjunct2, THEN conjunct2]
  note n = schedule_policy [OF v, where t = "''y''" and m = True and path = "''/repo/b.txt''"
      and p = None]
  note n8 = n [THEN conjunct2, THEN conjunct2, THEN conjunct2, THEN conjunct2,
      THEN conjunct2, THEN conjunct2, THEN conjunct2, THEN conjunct2]
  have a: "immediateQueue (step ScheduleUpdate scheduledView) = [2]"
    using r2 [THEN conjunct1] by (simp add: scheduledView_facts del: step.simps)
  have b: "immediateQueue (step (DidStopChanging ''y'' True) scheduledView) = [1]"
    using r4 [THEN conjunct1] by (simp add: scheduledView_facts del: step.simps)
  have c: "immediateQueue (step (DidChangePath (Some ''/repo/b.txt'')) scheduledView) = [1]"
    using r4 [THEN conjunct2, THEN conjunct2, THEN conjunct1]
    by (simp add: scheduledView_facts del: step.simps)
  have d: "pendingFetches (step (DidStopChanging ''y'' True) scheduledView)
     = pendingFetches scheduledView @ [FetchRequest ''/repo/a.txt'' (Some ''y'') 0]"
    using r8 [THEN conjunct2, THEN conjunct1] scheduledView_facts(3,4,9)
    by (simp add: scheduledView_facts(5,8) del: step.simps)
  have e: "pendingFetches (step (DidChangePath (Some ''/repo/b.txt'')) scheduledView)
     = pendingFetches scheduledView @ [FetchRequest ''/repo/b.txt'' (Some ''x'') 0]"
    using r8 [THEN conjunct2, THEN conjunct2, THEN conjunct1] scheduledView_facts(3,4,10)
    by (simp add: scheduledView_facts(6,7,8) del: step.simps)
  have f: "step (DidChangePath None) scheduledView
     = removeDecorations (scheduledView\<lparr>editor := (editor scheduledView)\<lparr>getPath := None\<rparr>\<rparr>)"
    using n8 [THEN conjunct2, THEN conjunct2, THEN conjunct2] scheduledView_facts(3,4,11)
    by (simp del: step.simps)
  from v scheduledView_facts(3,4,1) a b c d e f show ?thesis
    by (intro conjI)
qed

text \<open>
  C9 at a fetch that resolves after the editor was destroyed: the teardown has
  cancelled the queue and removed the markers, and the continuation of
  \<open>updateDiffs\<close> then sets \<open>this.diffs\<close> and creates and tracks a marker, since
  only the part before the \<open>await\<close> asks \<open>isDestroyed()\<close>.
\<close>

theorem resolved_after_destroy:
  "isDestroyed (editor (run [RunImmediate, DidDestroy] exampleView)) \<and>
   \<not> subscriptions (run [RunImmediate, DidDestroy] exampleView) \<and>
   immediateQueue (run [RunImmediate, DidDestroy] exampleView) = [] \<and>
   markers (run [RunImmediate, DidDestroy] exampleView) = [] \<and>
   markerStore (editor (run [RunImmediate, DidDestroy] exampleView)) = [] \<and>
   diffs (run [RunImmediate, DidDestroy] exampleView) = None \<and>
   markers (step (FetchResolved 0 (Some [hunkA])) (run [RunImmediate, DidDestroy] exampleView)) = [0] \<and>
   markerStore (editor (step (FetchResolved 0 (Some [hunkA]))
       (run [RunImmediate, DidDestroy] exampleView)))
     = [lineMarker 4 7 ''git-line-added''] \<and>
   diffs (step (FetchResolved 0 (Some [hunkA])) (run [RunImmediate, DidDestroy] exampleView))
     = Some [\<lparr>newStart = 5, oldLines = 0, newLines = 3\<rparr>]"
  by (simp add: run_defs example_defs Let_def)

end
